theory Spec2Isabelle
  imports Complex_Main "HOL-Library.Sublist"
begin

section \<open>Text\<close>

text \<open>
  A Python \<open>str\<close> is a sequence of Unicode code points, so the text of the program is a
  list of code points, each a \<open>nat\<close>.  \<open>str\<close> embeds an ASCII literal of the source.
\<close>

type_synonym pystr = "nat list"

definition str :: "string \<Rightarrow> pystr" where
  "str s = map of_char s"

text \<open>\<open>ch.isspace()\<close> of CPython, the characters \<open>str.strip()\<close> removes.\<close>

definition isspace :: "nat \<Rightarrow> bool" where
  "isspace c \<longleftrightarrow>
     (9 \<le> c \<and> c \<le> 13) \<or> (28 \<le> c \<and> c \<le> 32) \<or> c = 133 \<or> c = 160 \<or> c = 5760 \<or>
     (8192 \<le> c \<and> c \<le> 8202) \<or> c = 8232 \<or> c = 8233 \<or> c = 8239 \<or> c = 8287 \<or> c = 12288"

definition strip :: "pystr \<Rightarrow> pystr" where
  "strip s = rev (dropWhile isspace (rev (dropWhile isspace s)))"

text \<open>\<open>needle in hay\<close> on strings: \<open>needle\<close> occurs as a contiguous run of \<open>hay\<close>.\<close>

fun py_in :: "pystr \<Rightarrow> pystr \<Rightarrow> bool" where
  "py_in needle [] = (needle = [])"
| "py_in needle (x # xs) = (prefix needle (x # xs) \<or> py_in needle xs)"

section \<open>Regular expressions of the \<open>re\<close> module\<close>

text \<open>
  The patterns of the program use literals, character sets, greedy repetition of a
  one-character set, concatenation, alternation and one capturing group.  A set is a
  list of single characters and ranges, possibly negated (\<open>[^...]\<close>).
\<close>

datatype citem = One nat | Range nat nat

fun in_item :: "nat \<Rightarrow> citem \<Rightarrow> bool" where
  "in_item c (One d) = (c = d)"
| "in_item c (Range lo hi) = (lo \<le> c \<and> c \<le> hi)"

record cset =
  negated :: bool
  items :: "citem list"

definition in_cset :: "cset \<Rightarrow> nat \<Rightarrow> bool" where
  "in_cset cs c = (negated cs \<noteq> (\<exists>i \<in> set (items cs). in_item c i))"

datatype regex =
    Lit nat
  | Rep cset nat "nat option"
  | Seq regex regex
  | Alt regex regex
  | Grp regex
  | Eps

text \<open>
  The engine is the backtracking one of \<open>re\<close>: a greedy repetition first takes as many
  characters as the set and the upper bound allow, then gives them back one at a time
  until the rest of the pattern matches; an alternation tries its branches from left to
  right.  The continuation \<open>k\<close> is the rest of the pattern; it receives the text not yet
  consumed and the text of group 1, if the group has matched.
\<close>

fun backoff :: "nat \<Rightarrow> nat \<Rightarrow> pystr \<Rightarrow> (pystr \<Rightarrow> 'r option) \<Rightarrow> 'r option" where
  "backoff lo 0 s k = (if lo = 0 then k s else None)"
| "backoff lo (Suc n) s k =
     (if Suc n < lo then None
      else (case k (drop (Suc n) s) of
              Some r \<Rightarrow> Some r
            | None \<Rightarrow> backoff lo n s k))"

definition run_length :: "cset \<Rightarrow> nat option \<Rightarrow> pystr \<Rightarrow> nat" where
  "run_length cs hi s =
     length (takeWhile (in_cset cs) (case hi of None \<Rightarrow> s | Some h \<Rightarrow> take h s))"

fun bt :: "regex \<Rightarrow> pystr \<Rightarrow> pystr option \<Rightarrow> (pystr \<Rightarrow> pystr option \<Rightarrow> 'r option) \<Rightarrow> 'r option"
where
  "bt (Lit c) s g k = (case s of [] \<Rightarrow> None | x # xs \<Rightarrow> if x = c then k xs g else None)"
| "bt (Rep cs lo hi) s g k = backoff lo (run_length cs hi s) s (\<lambda>s'. k s' g)"
| "bt (Seq a b) s g k = bt a s g (\<lambda>s' g'. bt b s' g' k)"
| "bt (Alt a b) s g k = (case bt a s g k of Some r \<Rightarrow> Some r | None \<Rightarrow> bt b s g k)"
| "bt (Grp a) s g k = bt a s g (\<lambda>s' g'. k s' (Some (take (length s - length s') s)))"
| "bt Eps s g k = k s g"

text \<open>A match at the start of \<open>s\<close>: the text of group 1 and the text after the match.\<close>

definition match_here :: "regex \<Rightarrow> pystr \<Rightarrow> (pystr option \<times> pystr) option" where
  "match_here r s = bt r s None (\<lambda>s' g. Some (g, s'))"

text \<open>
  \<open>re.search\<close>: the match at the leftmost position where the pattern matches; positions
  run up to and including the end of the text.
\<close>

fun re_search :: "regex \<Rightarrow> pystr \<Rightarrow> (pystr option \<times> pystr) option" where
  "re_search r [] = match_here r []"
| "re_search r (x # xs) =
     (case match_here r (x # xs) of Some m \<Rightarrow> Some m | None \<Rightarrow> re_search r xs)"

definition lits :: "pystr \<Rightarrow> regex" where
  "lits s = foldr (\<lambda>c r. Seq (Lit c) r) s Eps"

definition excl :: "string \<Rightarrow> cset" where
  "excl s = \<lparr>negated = True, items = map (\<lambda>c. One (of_char c)) s\<rparr>"

definition plus :: "cset \<Rightarrow> regex" where
  "plus cs = Rep cs 1 None"

definition star :: "cset \<Rightarrow> regex" where
  "star cs = Rep cs 0 None"

definition cat :: "regex list \<Rightarrow> regex" where
  "cat rs = foldr Seq rs Eps"

subsection \<open>The four patterns of the handler\<close>

text \<open>\<^verbatim>\<open><a[^>]+href="([^"]+\.mp4[^"]*)"[^>]*>\<close>\<close>

definition video_pattern :: regex where
  "video_pattern =
     cat [lits (str ''<a''), plus (excl ''>''), lits (str ''href=\"''),
          Grp (cat [plus (excl ''\"''), lits (str ''.mp4''), star (excl ''\"'')]),
          lits (str ''\"''), star (excl ''>''), lits (str ''>'')]"

text \<open>\<^verbatim>\<open><img[^>]+src="data:image\/jpg;base64,([^"]+)"\<close>\<close>

definition thumb_base64_pattern :: regex where
  "thumb_base64_pattern =
     cat [lits (str ''<img''), plus (excl ''>''), lits (str ''src=\"data:image/jpg;base64,''),
          Grp (plus (excl ''\"'')), lits (str ''\"'')]"

text \<open>\<^verbatim>\<open><a[^>]+href="([^"]+\.jpg[^"]*)"[^>]*>\<close>\<close>

definition thumb_pattern :: regex where
  "thumb_pattern =
     cat [lits (str ''<a''), plus (excl ''>''), lits (str ''href=\"''),
          Grp (cat [plus (excl ''\"''), lits (str ''.jpg''), star (excl ''\"'')]),
          lits (str ''\"''), star (excl ''>''), lits (str ''>'')]"

text \<open>\<^verbatim>\<open><img[^>]+src="([^"]+\.jpg[^"]*)"[^>]*>\<close>\<close>

definition alt_thumb_pattern :: regex where
  "alt_thumb_pattern =
     cat [lits (str ''<img''), plus (excl ''>''), lits (str ''src=\"''),
          Grp (cat [plus (excl ''\"''), lits (str ''.jpg''), star (excl ''\"'')]),
          lits (str ''\"''), star (excl ''>''), lits (str ''>'')]"

section \<open>\<open>html.unescape\<close>\<close>

text \<open>
  The standard library's \<open>html.unescape\<close>, after \<^verbatim>\<open>Lib/html/__init__.py\<close>.  Its table
  of the 2231 named character references of HTML 5, \<open>html.entities.html5\<close>, is a
  parameter of the model.
\<close>

datatype py_exc = IndexError | ValueError | TypeError | UnicodeEncodeError | AttributeError

type_synonym table = "pystr \<rightharpoonup> pystr"

text \<open>\<^verbatim>\<open>&(#[0-9]+;?|#[xX][0-9a-fA-F]+;?|[^\t\n\f <&#;]{1,32};?)\<close>\<close>

definition digits :: cset where
  "digits = \<lparr>negated = False, items = [Range 48 57]\<rparr>"

definition hexdigits :: cset where
  "hexdigits = \<lparr>negated = False, items = [Range 48 57, Range 97 102, Range 65 70]\<rparr>"

definition semi :: regex where
  "semi = Rep \<lparr>negated = False, items = [One 59]\<rparr> 0 (Some 1)"

definition charref :: regex where
  "charref =
     Seq (Lit 38)
       (Grp (Alt (cat [Lit 35, plus digits, semi])
            (Alt (cat [Lit 35, Rep \<lparr>negated = False, items = [One 120, One 88]\<rparr> 1 (Some 1),
                       plus hexdigits, semi])
                 (cat [Rep \<lparr>negated = True,
                             items = [One 9, One 10, One 12, One 32, One 60, One 38, One 35, One 59]\<rparr>
                         1 (Some 32), semi]))))"

definition invalid_charrefs :: "nat \<rightharpoonup> nat" where
  "invalid_charrefs = map_of
     [(0x00, 0xfffd), (0x0d, 0x0d), (0x80, 0x20ac), (0x81, 0x81), (0x82, 0x201a),
      (0x83, 0x0192), (0x84, 0x201e), (0x85, 0x2026), (0x86, 0x2020), (0x87, 0x2021),
      (0x88, 0x02c6), (0x89, 0x2030), (0x8a, 0x0160), (0x8b, 0x2039), (0x8c, 0x0152),
      (0x8d, 0x8d), (0x8e, 0x017d), (0x8f, 0x8f), (0x90, 0x90), (0x91, 0x2018),
      (0x92, 0x2019), (0x93, 0x201c), (0x94, 0x201d), (0x95, 0x2022), (0x96, 0x2013),
      (0x97, 0x2014), (0x98, 0x02dc), (0x99, 0x2122), (0x9a, 0x0161), (0x9b, 0x203a),
      (0x9c, 0x0153), (0x9d, 0x9d), (0x9e, 0x017e), (0x9f, 0x0178)]"

definition invalid_codepoints :: "nat \<Rightarrow> bool" where
  "invalid_codepoints n \<longleftrightarrow>
     (0x1 \<le> n \<and> n \<le> 0x8) \<or> (0xe \<le> n \<and> n \<le> 0x1f) \<or> (0x7f \<le> n \<and> n \<le> 0x9f) \<or>
     (0xfdd0 \<le> n \<and> n \<le> 0xfdef) \<or> n = 0xb \<or>
     (n \<le> 0x10ffff \<and> (n mod 0x10000 = 0xfffe \<or> n mod 0x10000 = 0xffff))"

text \<open>
  \<open>int(text, base)\<close> for base 10 and 16 on a nonempty run of digits of the base, the only
  texts the pattern lets through; any other text is \<open>ValueError\<close> here.  The interpreter
  refuses to convert a decimal text of more than \<open>sys.int_info.default_max_str_digits\<close>
  digits, leading zeros included, with \<open>ValueError\<close>; a hexadecimal text has no limit.
\<close>

definition int_max_str_digits :: nat where
  "int_max_str_digits = 4300"

definition digit_val :: "nat \<Rightarrow> nat \<Rightarrow> nat option" where
  "digit_val base c =
     (if 48 \<le> c \<and> c \<le> 57 \<and> c - 48 < base then Some (c - 48)
      else if 97 \<le> c \<and> c \<le> 102 \<and> c - 87 < base then Some (c - 87)
      else if 65 \<le> c \<and> c \<le> 70 \<and> c - 55 < base then Some (c - 55)
      else None)"

fun int_acc :: "nat \<Rightarrow> nat \<Rightarrow> pystr \<Rightarrow> py_exc + nat" where
  "int_acc base acc [] = Inr acc"
| "int_acc base acc (c # cs) =
     (case digit_val base c of
        None \<Rightarrow> Inl ValueError
      | Some d \<Rightarrow> int_acc base (acc * base + d) cs)"

definition py_int :: "nat \<Rightarrow> pystr \<Rightarrow> py_exc + nat" where
  "py_int base s =
     (if s = [] then Inl ValueError
      else if base = 10 \<and> int_max_str_digits < length s then Inl ValueError
      else int_acc base 0 s)"

text \<open>\<open>s.rstrip(';')\<close>\<close>

definition rstrip_semi :: "pystr \<Rightarrow> pystr" where
  "rstrip_semi s = rev (dropWhile (\<lambda>c. c = 59) (rev s))"

text \<open>
  \<^verbatim>\<open>for x in range(len(s)-1, 1, -1): if s[:x] in _html5: return _html5[s[:x]] + s[x:]\<close>
  and the loop's \<open>else\<close>: \<^verbatim>\<open>return '&' + s\<close>.
\<close>

fun longest_name :: "table \<Rightarrow> pystr \<Rightarrow> nat \<Rightarrow> pystr" where
  "longest_name t s 0 = 38 # s"
| "longest_name t s (Suc x) =
     (if Suc x \<le> 1 then 38 # s
      else (case t (take (Suc x) s) of
              Some v \<Rightarrow> v @ drop (Suc x) s
            | None \<Rightarrow> longest_name t s x))"

definition numeric_charref :: "nat \<Rightarrow> pystr" where
  "numeric_charref num =
     (case invalid_charrefs num of
        Some c \<Rightarrow> [c]
      | None \<Rightarrow>
          if (0xD800 \<le> num \<and> num \<le> 0xDFFF) \<or> num > 0x10FFFF then [0xFFFD]
          else if invalid_codepoints num then []
          else [num])"

definition replace_charref :: "table \<Rightarrow> pystr option \<Rightarrow> py_exc + pystr" where
  "replace_charref t g =
     (case g of
        None \<Rightarrow> Inl TypeError
      | Some [] \<Rightarrow> Inl IndexError
      | Some (c0 # r) \<Rightarrow>
          if c0 = 35 then
            (case r of
               [] \<Rightarrow> Inl IndexError
             | c1 # r' \<Rightarrow>
                 (case (if c1 = 120 \<or> c1 = 88 then py_int 16 (rstrip_semi r')
                        else py_int 10 (rstrip_semi r)) of
                    Inl e \<Rightarrow> Inl e
                  | Inr num \<Rightarrow> Inr (numeric_charref num)))
          else
            (case t (c0 # r) of
               Some v \<Rightarrow> Inr v
             | None \<Rightarrow> Inr (longest_name t (c0 # r) (length (c0 # r) - 1))))"

text \<open>
  \<open>_charref.sub(_replace_charref, s)\<close>: the text is scanned from the left; at a match the
  replacement is emitted and the scan resumes after the match, elsewhere the character
  is copied.  \<open>skip\<close> counts the characters of the current match still to pass over.
\<close>

fun charref_sub :: "table \<Rightarrow> nat \<Rightarrow> pystr \<Rightarrow> py_exc + pystr" where
  "charref_sub t skip [] = Inr []"
| "charref_sub t (Suc n) (x # xs) = charref_sub t n xs"
| "charref_sub t 0 (x # xs) =
     (case match_here charref (x # xs) of
        None \<Rightarrow> (case charref_sub t 0 xs of Inl e \<Rightarrow> Inl e | Inr out \<Rightarrow> Inr (x # out))
      | Some (g, rest) \<Rightarrow>
          (case replace_charref t g of
             Inl e \<Rightarrow> Inl e
           | Inr v \<Rightarrow>
               (case charref_sub t (length xs - length rest) xs of
                  Inl e \<Rightarrow> Inl e
                | Inr out \<Rightarrow> Inr (v @ out))))"

definition unescape :: "table \<Rightarrow> pystr \<Rightarrow> py_exc + pystr" where
  "unescape t s = (if 38 \<notin> set s then Inr s else charref_sub t 0 s)"

section \<open>\<open>urllib.parse.quote\<close>\<close>

text \<open>
  \<open>quote(url, safe='')\<close>: the text is encoded as UTF-8 (strictly, so a surrogate code point
  raises \<open>UnicodeEncodeError\<close>), and every byte other than an ASCII letter, a digit or one
  of \<open>_.-~\<close> becomes \<open>%XX\<close> in upper-case hexadecimal.  Code points of a \<open>str\<close> are at
  most \<open>0x10FFFF\<close>; a larger number is no character and is an error here too.
\<close>

definition utf8 :: "nat \<Rightarrow> py_exc + nat list" where
  "utf8 c =
     (if c < 0x80 then Inr [c]
      else if c < 0x800 then Inr [0xC0 + c div 0x40, 0x80 + c mod 0x40]
      else if 0xD800 \<le> c \<and> c \<le> 0xDFFF then Inl UnicodeEncodeError
      else if c < 0x10000 then
        Inr [0xE0 + c div 0x1000, 0x80 + (c div 0x40) mod 0x40, 0x80 + c mod 0x40]
      else if c < 0x110000 then
        Inr [0xF0 + c div 0x40000, 0x80 + (c div 0x1000) mod 0x40,
             0x80 + (c div 0x40) mod 0x40, 0x80 + c mod 0x40]
      else Inl UnicodeEncodeError)"

fun encode_utf8 :: "pystr \<Rightarrow> py_exc + nat list" where
  "encode_utf8 [] = Inr []"
| "encode_utf8 (c # cs) =
     (case utf8 c of
        Inl e \<Rightarrow> Inl e
      | Inr bs \<Rightarrow> (case encode_utf8 cs of Inl e \<Rightarrow> Inl e | Inr rest \<Rightarrow> Inr (bs @ rest)))"

definition always_safe :: "nat \<Rightarrow> bool" where
  "always_safe b \<longleftrightarrow>
     (65 \<le> b \<and> b \<le> 90) \<or> (97 \<le> b \<and> b \<le> 122) \<or> (48 \<le> b \<and> b \<le> 57) \<or>
     b = 95 \<or> b = 46 \<or> b = 45 \<or> b = 126"

definition hexdigit :: "nat \<Rightarrow> nat" where
  "hexdigit d = (if d < 10 then 48 + d else 55 + d)"

definition quoter :: "nat \<Rightarrow> pystr" where
  "quoter b = (if always_safe b then [b] else [37, hexdigit (b div 16), hexdigit (b mod 16)])"

definition quote :: "pystr \<Rightarrow> py_exc + pystr" where
  "quote s =
     (if s = [] then Inr s
      else (case encode_utf8 s of Inl e \<Rightarrow> Inl e | Inr bs \<Rightarrow> Inr (concat (map quoter bs))))"

section \<open>The upstream service\<close>

text \<open>
  What \<open>requests.get\<close> does for a target URL is the environment's: it raises
  \<open>requests.exceptions.Timeout\<close>, another \<open>RequestException\<close>, or some other exception,
  each with its message \<open>str(e)\<close>, or it returns a response.
\<close>

record response =
  status_code :: nat
  reason :: pystr
  final_url :: pystr
  body :: pystr

datatype exc_class = Timeout | RequestException | OtherException

datatype outcome = Raises exc_class pystr | Returns response

text \<open>\<open>str(n)\<close> of a natural number.\<close>

fun decimal :: "nat \<Rightarrow> pystr" where
  "decimal n = (if n < 10 then [48 + n] else decimal (n div 10) @ [48 + n mod 10])"

declare decimal.simps [simp del]

text \<open>
  \<open>response.raise_for_status()\<close>: the message of the \<open>HTTPError\<close> it raises, for a status
  from 400 to 599; no exception for any other status.
\<close>

definition raise_for_status :: "response \<Rightarrow> pystr option" where
  "raise_for_status r =
     (if 400 \<le> status_code r \<and> status_code r < 500 then
        Some (decimal (status_code r) @ str '' Client Error: '' @ reason r
              @ str '' for url: '' @ final_url r)
      else if 500 \<le> status_code r \<and> status_code r < 600 then
        Some (decimal (status_code r) @ str '' Server Error: '' @ reason r
              @ str '' for url: '' @ final_url r)
      else None)"

record env =
  html5 :: table
  upstream :: "pystr \<Rightarrow> outcome"
  exc_message :: "py_exc \<Rightarrow> pystr"

section \<open>The handlers\<close>

datatype json = JNull | JString pystr | JObject "(pystr \<times> json) list"

text \<open>
  A handler returns a \<open>JSONResponse\<close> or raises an \<open>HTTPException\<close> with a status and a
  detail; an exception it does not catch leaves the handler (\<open>Unhandled\<close>).  With its
  result the model returns the target URLs of the requests it sent, in order.
\<close>

datatype http_result =
    JSONResponse json nat
  | HTTPException nat pystr
  | Unhandled py_exc

text \<open>\<open>html.unescape(m.group(1)) if m else ""\<close>\<close>

definition unescape_match :: "table \<Rightarrow> (pystr option \<times> pystr) option \<Rightarrow> py_exc + pystr" where
  "unescape_match t m =
     (case m of
        None \<Rightarrow> Inr []
      | Some (g, _) \<Rightarrow> (case g of None \<Rightarrow> Inl TypeError | Some s \<Rightarrow> unescape t s))"

text \<open>Steps 4 and 5 of \<open>download_instagram_content\<close>, on \<open>response.text\<close>.\<close>

definition video_url_of :: "table \<Rightarrow> pystr \<Rightarrow> py_exc + pystr" where
  "video_url_of t txt = unescape_match t (re_search video_pattern txt)"

text \<open>\<open>thumb_base64_match.group(1) if thumb_base64_match else None\<close>\<close>

definition thumb_base64_of :: "pystr \<Rightarrow> pystr option" where
  "thumb_base64_of txt =
     (case re_search thumb_base64_pattern txt of None \<Rightarrow> None | Some (g, _) \<Rightarrow> g)"

definition thumb_url_of :: "table \<Rightarrow> pystr \<Rightarrow> py_exc + pystr" where
  "thumb_url_of t txt =
     (case unescape_match t (re_search thumb_pattern txt) of
        Inl e \<Rightarrow> Inl e
      | Inr thumb_url \<Rightarrow>
          if thumb_url = [] then unescape_match t (re_search alt_thumb_pattern txt)
          else Inr thumb_url)"

text \<open>\<open>f"data:image/jpg;base64,{thumb_base64}" if thumb_base64 else None\<close>\<close>

definition thumbnail_base64_field :: "pystr option \<Rightarrow> json" where
  "thumbnail_base64_field thumb_base64 =
     (case thumb_base64 of
        None \<Rightarrow> JNull
      | Some b \<Rightarrow> if b \<noteq> [] then JString (str ''data:image/jpg;base64,'' @ b) else JNull)"

definition success :: "pystr \<Rightarrow> pystr \<Rightarrow> json \<Rightarrow> pystr \<Rightarrow> http_result" where
  "success video_url thumb_url thumb_base64 url =
     JSONResponse
       (JObject
         [(str ''status'', JString (str ''success'')),
          (str ''data'',
             JObject
               [(str ''video_url'', JString video_url),
                (str ''thumbnail_url'', JString thumb_url),
                (str ''thumbnail_base64'', thumb_base64),
                (str ''original_url'', JString url)]),
          (str ''message'', JString (str ''Video extracted successfully''))])
       200"

definition not_found :: http_result where
  "not_found =
     JSONResponse
       (JObject
         [(str ''status'', JString (str ''error'')),
          (str ''message'', JString (str ''Unable to extract video from the provided URL'')),
          (str ''data'', JNull)])
       404"

text \<open>Steps 4 to 6: the three searches in the order of the source, then the response.\<close>

definition extraction :: "table \<Rightarrow> pystr \<Rightarrow> pystr \<Rightarrow> py_exc + http_result" where
  "extraction t url txt =
     (case video_url_of t txt of
        Inl e \<Rightarrow> Inl e
      | Inr video_url \<Rightarrow>
          (case thumb_url_of t txt of
             Inl e \<Rightarrow> Inl e
           | Inr thumb_url \<Rightarrow>
               if video_url \<noteq> [] then
                 Inr (success video_url thumb_url
                        (thumbnail_base64_field (thumb_base64_of txt)) url)
               else Inr not_found))"

definition target_url :: "pystr \<Rightarrow> pystr" where
  "target_url encoded_url =
     str ''https://snapdownloader.com/tools/instagram-reels-downloader/download?url=''
     @ encoded_url"

definition unexpected :: "env \<Rightarrow> py_exc \<Rightarrow> http_result" where
  "unexpected E e = HTTPException 500 (str ''An unexpected error occurred: '' @ exc_message E e)"

text \<open>\<open>GET /api/download\<close>\<close>

definition download_instagram_content :: "env \<Rightarrow> pystr \<Rightarrow> http_result \<times> pystr list" where
  "download_instagram_content E url =
     (if url = [] \<or> strip url = [] then
        (HTTPException 400 (str ''Missing Instagram URL''), [])
      else if \<not> (py_in (str ''instagram.com'') url \<or> py_in (str ''instagr.am'') url) then
        (HTTPException 400 (str ''Invalid Instagram URL''), [])
      else
        (case quote url of
           Inl e \<Rightarrow> (unexpected E e, [])
         | Inr encoded_url \<Rightarrow>
             ((case upstream E (target_url encoded_url) of
                 Raises Timeout m \<Rightarrow>
                   HTTPException 408
                     (str ''Request timeout - the external service took too long to respond'')
               | Raises RequestException m \<Rightarrow>
                   HTTPException 500 (str ''Failed to fetch data: '' @ m)
               | Raises OtherException m \<Rightarrow>
                   HTTPException 500 (str ''An unexpected error occurred: '' @ m)
               | Returns r \<Rightarrow>
                   (case raise_for_status r of
                      Some m \<Rightarrow> HTTPException 500 (str ''Failed to fetch data: '' @ m)
                    | None \<Rightarrow>
                        (case extraction (html5 E) url (body r) of
                           Inl e \<Rightarrow> unexpected E e
                         | Inr res \<Rightarrow> res))),
              [target_url encoded_url])))"

text \<open>
  The values of a JSON request body.  \<open>truthy\<close> is Python's truth value; of the values
  here only a \<open>str\<close> has a method \<open>strip\<close>.
\<close>

datatype pyval =
    PNone
  | PBool bool
  | PInt int
  | PFloat real
  | PStr pystr
  | PList "pyval list"
  | PDict "(pystr \<times> pyval) list"

fun truthy :: "pyval \<Rightarrow> bool" where
  "truthy PNone = False"
| "truthy (PBool b) = b"
| "truthy (PInt i) = (i \<noteq> 0)"
| "truthy (PFloat x) = (x \<noteq> 0)"
| "truthy (PStr s) = (s \<noteq> [])"
| "truthy (PList vs) = (vs \<noteq> [])"
| "truthy (PDict kvs) = (kvs \<noteq> [])"

text \<open>\<open>request_data.get('url')\<close>\<close>

definition get_url :: "(pystr \<rightharpoonup> pyval) \<Rightarrow> pyval" where
  "get_url request_data = (case request_data (str ''url'') of None \<Rightarrow> PNone | Some v \<Rightarrow> v)"

text \<open>\<open>POST /api/download\<close>\<close>

definition download_instagram_content_post ::
  "env \<Rightarrow> (pystr \<rightharpoonup> pyval) \<Rightarrow> http_result \<times> pystr list" where
  "download_instagram_content_post E request_data =
     (let url = get_url request_data in
      if \<not> truthy url then
        (HTTPException 400 (str ''Missing 'url' field in request body''), [])
      else
        (case url of
           PStr s \<Rightarrow> download_instagram_content E s
         | _ \<Rightarrow> (Unhandled AttributeError, [])))"

section \<open>What the patterns describe\<close>

text \<open>
  The texts a pattern matches, independently of the engine: \<open>matches r w g g'\<close> says that
  \<open>r\<close> matches exactly the text \<open>w\<close> and leaves group 1 as \<open>g'\<close> when it was \<open>g\<close> before;
  \<open>lang r w\<close> forgets the group.
\<close>

definition at_most :: "nat option \<Rightarrow> nat \<Rightarrow> bool" where
  "at_most hi n = (case hi of None \<Rightarrow> True | Some h \<Rightarrow> n \<le> h)"

fun matches :: "regex \<Rightarrow> pystr \<Rightarrow> pystr option \<Rightarrow> pystr option \<Rightarrow> bool" where
  "matches (Lit c) w g g' = (w = [c] \<and> g' = g)"
| "matches (Rep cs lo hi) w g g' =
     (g' = g \<and> (\<forall>c \<in> set w. in_cset cs c) \<and> lo \<le> length w \<and> at_most hi (length w))"
| "matches (Seq a b) w g g' =
     (\<exists>w1 w2 g1. w = w1 @ w2 \<and> matches a w1 g g1 \<and> matches b w2 g1 g')"
| "matches (Alt a b) w g g' = (matches a w g g' \<or> matches b w g g')"
| "matches (Grp a) w g g' = ((\<exists>g1. matches a w g g1) \<and> g' = Some w)"
| "matches Eps w g g' = (w = [] \<and> g' = g)"

fun lang :: "regex \<Rightarrow> pystr \<Rightarrow> bool" where
  "lang (Lit c) w = (w = [c])"
| "lang (Rep cs lo hi) w =
     ((\<forall>c \<in> set w. in_cset cs c) \<and> lo \<le> length w \<and> at_most hi (length w))"
| "lang (Seq a b) w = (\<exists>w1 w2. w = w1 @ w2 \<and> lang a w1 \<and> lang b w2)"
| "lang (Alt a b) w = (lang a w \<or> lang b w)"
| "lang (Grp a) w = lang a w"
| "lang Eps w = (w = [])"

text \<open>
  A tag with a quoted attribute value, as the handler's patterns describe it: the text
  \<open>w\<close> is \<open>opening\<close> (\<open><a\<close> or \<open><img\<close>), at least one character other than \<open>>\<close>,
  \<open>attr\<close> (\<open>href="\<close> or \<open>src="\<close>), the value \<open>v\<close>, the closing quote, characters other
  than \<open>>\<close>, and \<open>>\<close>.  The value has no quote; it is at least one character, then
  \<open>ext\<close> (\<open>.mp4\<close> or \<open>.jpg\<close>), then any characters.
\<close>

definition media_tag :: "pystr \<Rightarrow> pystr \<Rightarrow> pystr \<Rightarrow> pystr \<Rightarrow> pystr \<Rightarrow> bool" where
  "media_tag opening attr ext w v \<longleftrightarrow>
     (\<exists>a p q b. w = opening @ a @ attr @ v @ [34] @ b @ [62] \<and>
        a \<noteq> [] \<and> 62 \<notin> set a \<and> v = p @ ext @ q \<and> p \<noteq> [] \<and> 34 \<notin> set v \<and> 62 \<notin> set b)"

text \<open>
  The image tag with an inline thumbnail: \<open><img\<close>, at least one character other than
  \<open>>\<close>, \<open>src="data:image/jpg;base64,\<close>, a nonempty payload without a quote, and the
  closing quote.
\<close>

definition data_uri_tag :: "pystr \<Rightarrow> pystr \<Rightarrow> bool" where
  "data_uri_tag w payload \<longleftrightarrow>
     (\<exists>a. w = str ''<img'' @ a @ str ''src=\"data:image/jpg;base64,'' @ payload @ [34] \<and>
        a \<noteq> [] \<and> 62 \<notin> set a \<and> payload \<noteq> [] \<and> 34 \<notin> set payload)"

text \<open>\<open>occurs_at P txt n\<close>: a text with the property \<open>P\<close> starts at position \<open>n\<close> of \<open>txt\<close>.\<close>

definition occurs_at :: "(pystr \<Rightarrow> bool) \<Rightarrow> pystr \<Rightarrow> nat \<Rightarrow> bool" where
  "occurs_at P txt n \<longleftrightarrow> (\<exists>w rest. drop n txt = w @ rest \<and> n \<le> length txt \<and> P w)"

text \<open>
  The text of a query parameter is made of Unicode scalar values: code points up to
  \<open>0x10FFFF\<close> that are not surrogates.
\<close>

definition scalar_text :: "pystr \<Rightarrow> bool" where
  "scalar_text s \<longleftrightarrow> (\<forall>c \<in> set s. c < 0x110000 \<and> \<not> (0xD800 \<le> c \<and> c \<le> 0xDFFF))"

text \<open>The table of named references has no empty replacement text.\<close>

definition proper_table :: "table \<Rightarrow> bool" where
  "proper_table t \<longleftrightarrow> (\<forall>k v. t k = Some v \<longrightarrow> v \<noteq> [])"

subsection \<open>A sample environment\<close>

definition sample_table :: table where
  "sample_table =
     map_of [(str ''amp;'', [38]), (str ''amp'', [38]), (str ''lt;'', [60]), (str ''gt;'', [62]),
             (str ''quot;'', [34])]"

definition sample_page :: pystr where
  "sample_page =
     str ''<a href=\"https://cdn.example/video123.mp4?sig=abc\"></a><img src=\"data:image/jpg;base64,AAAA\">''"

definition sample_env :: env where
  "sample_env =
     \<lparr>html5 = sample_table,
      upstream = (\<lambda>u. Returns \<lparr>status_code = 200, reason = str ''OK'', final_url = u,
                                body = sample_page\<rparr>),
      exc_message = (\<lambda>e. str ''error'')\<rparr>"

definition sample_url :: pystr where
  "sample_url = str ''https://www.instagram.com/reel/Cabc123/''"

definition not_modified_env :: env where
  "not_modified_env =
     \<lparr>html5 = sample_table,
      upstream = (\<lambda>u. Returns \<lparr>status_code = 304, reason = str ''Not Modified'', final_url = u,
                                body = []\<rparr>),
      exc_message = (\<lambda>e. str ''error'')\<rparr>"

text \<open>The shape the three patterns for media links share.\<close>

definition media_pattern :: "pystr \<Rightarrow> pystr \<Rightarrow> pystr \<Rightarrow> regex" where
  "media_pattern opening attr ext =
     cat [lits opening, plus (excl ''>''), lits attr,
          Grp (cat [plus (excl ''\"''), lits ext, star (excl ''\"'')]),
          lits (str ''\"''), star (excl ''>''), lits (str ''>'')]"

text \<open>
  The three media tags of the handler, by the text of the tag and the value of its
  attribute: an anchor with an \<open>.mp4\<close> link, an anchor with a \<open>.jpg\<close> link, an image
  with a \<open>.jpg\<close> source.
\<close>

definition mp4_anchor :: "pystr \<Rightarrow> pystr \<Rightarrow> bool" where
  "mp4_anchor w v = media_tag (str ''<a'') (str ''href=\"'') (str ''.mp4'') w v"

definition jpg_anchor :: "pystr \<Rightarrow> pystr \<Rightarrow> bool" where
  "jpg_anchor w v = media_tag (str ''<a'') (str ''href=\"'') (str ''.jpg'') w v"

definition jpg_image :: "pystr \<Rightarrow> pystr \<Rightarrow> bool" where
  "jpg_image w v = media_tag (str ''<img'') (str ''src=\"'') (str ''.jpg'') w v"

text \<open>
  \<open>has tag txt\<close>: some tag of the kind starts somewhere in \<open>txt\<close>.  \<open>first_of tag txt v\<close>:
  \<open>v\<close> is the value of a tag of the kind that starts at the leftmost position of \<open>txt\<close>
  where a tag of the kind starts.
\<close>

definition has :: "(pystr \<Rightarrow> pystr \<Rightarrow> bool) \<Rightarrow> pystr \<Rightarrow> bool" where
  "has tag txt \<longleftrightarrow> (\<exists>n. occurs_at (\<lambda>w. \<exists>v. tag w v) txt n)"

definition first_of :: "(pystr \<Rightarrow> pystr \<Rightarrow> bool) \<Rightarrow> pystr \<Rightarrow> pystr \<Rightarrow> bool" where
  "first_of tag txt v \<longleftrightarrow>
     (\<exists>n w rest. n \<le> length txt \<and> drop n txt = w @ rest \<and> tag w v \<and>
        (\<forall>m < n. \<not> occurs_at (\<lambda>w. \<exists>v. tag w v) txt m))"

definition no_video_page :: pystr where
  "no_video_page = str ''<html><img src=\"https://cdn.example/thumb.jpg\"></html>''"

definition no_video_env :: env where
  "no_video_env =
     \<lparr>html5 = sample_table,
      upstream = (\<lambda>u. Returns \<lparr>status_code = 200, reason = str ''OK'', final_url = u,
                                body = no_video_page\<rparr>),
      exc_message = (\<lambda>e. str ''error'')\<rparr>"

definition both_page :: pystr where
  "both_page =
     str ''<a href=\"https://cdn.example/t1.jpg\">x</a><img src=\"https://cdn.example/t2.jpg\">''"

text \<open>An environment whose upstream does the same thing for every target.\<close>

definition fixed_env :: "outcome \<Rightarrow> env" where
  "fixed_env out =
     \<lparr>html5 = sample_table, upstream = (\<lambda>u. out), exc_message = (\<lambda>e. str ''error'')\<rparr>"

definition unavailable :: response where
  "unavailable =
     \<lparr>status_code = 503, reason = str ''Service Unavailable'',
      final_url = str ''https://snapdownloader.com/'', body = []\<rparr>"

text \<open>
  A decimal character reference of 4301 digits, and pages whose only link holds it.
\<close>

definition long_reference :: pystr where
  "long_reference = str ''&#'' @ replicate 4301 49 @ str '';''"

definition long_thumb_page :: pystr where
  "long_thumb_page = str ''<a href=\"'' @ long_reference @ str ''.jpg\">''"


text \<open>A response with status 200 and the given body.\<close>

definition ok_response :: "pystr \<Rightarrow> response" where
  "ok_response page =
     \<lparr>status_code = 200, reason = str ''OK'', final_url = str ''https://snapdownloader.com/'',
      body = page\<rparr>"

section \<open>Properties of the library functions\<close>

subsection \<open>Blank texts, substrings and percent-encoding\<close>

lemma strip_empty_iff: "strip s = [] \<longleftrightarrow> (\<forall>c \<in> set s. isspace c)"
proof
  assume "strip s = []"
  then have a: "dropWhile isspace (rev (dropWhile isspace s)) = []"
    by (simp add: strip_def)
  show "\<forall>c \<in> set s. isspace c"
  proof (cases "dropWhile isspace s")
    case Nil
    then show ?thesis by simp
  next
    case (Cons y ys)
    then have "\<not> isspace y" using hd_dropWhile [of isspace s] by auto
    moreover have "y \<in> set (rev (dropWhile isspace s))" using Cons by simp
    ultimately show ?thesis using a by auto
  qed
next
  assume "\<forall>c \<in> set s. isspace c"
  then have d: "dropWhile isspace s = []" by simp
  show "strip s = []" unfolding strip_def d by simp
qed

lemma py_in_iff: "py_in n s \<longleftrightarrow> (\<exists>pre post. s = pre @ n @ post)"
proof (induction s)
  case Nil
  then show ?case by auto
next
  case (Cons x xs)
  show ?case
  proof
    assume "py_in n (x # xs)"
    then consider "prefix n (x # xs)" | "py_in n xs" by auto
    then show "\<exists>pre post. x # xs = pre @ n @ post"
    proof cases
      case 1
      then obtain post where "x # xs = n @ post" by (auto simp: prefix_def)
      then have "x # xs = [] @ n @ post" by simp
      then show ?thesis by blast
    next
      case 2
      then obtain pre post where "xs = pre @ n @ post" using Cons.IH by auto
      then have "x # xs = (x # pre) @ n @ post" by simp
      then show ?thesis by blast
    qed
  next
    assume "\<exists>pre post. x # xs = pre @ n @ post"
    then obtain pre post where e: "x # xs = pre @ n @ post" by auto
    show "py_in n (x # xs)"
    proof (cases pre)
      case Nil
      then have "prefix n (x # xs)" using e by (simp add: prefix_def)
      then show ?thesis by simp
    next
      case (Cons p ps)
      then have "xs = ps @ n @ post" using e by simp
      then show ?thesis using Cons.IH by auto
    qed
  qed
qed

lemma py_in_not_blank:
  assumes "py_in n s" "c \<in> set n" "\<not> isspace c"
  shows "s \<noteq> [] \<and> strip s \<noteq> []"
proof -
  obtain pre post where "s = pre @ n @ post" using assms(1) py_in_iff by auto
  then have "c \<in> set s" using assms(2) by auto
  then show ?thesis using assms(3) strip_empty_iff by auto
qed

lemma host_not_blank:
  assumes "py_in (str ''instagram.com'') url \<or> py_in (str ''instagr.am'') url"
  shows "url \<noteq> [] \<and> strip url \<noteq> []"
proof -
  have a: "105 \<in> set (str ''instagram.com'')" "105 \<in> set (str ''instagr.am'')"
    by (simp_all add: str_def)
  have b: "\<not> isspace 105" by (simp add: isspace_def)
  show ?thesis using assms py_in_not_blank a b by blast
qed

lemma utf8_scalar: "c < 0x110000 \<Longrightarrow> \<not> (0xD800 \<le> c \<and> c \<le> 0xDFFF) \<Longrightarrow> \<exists>bs. utf8 c = Inr bs"
  by (simp add: utf8_def)

lemma encode_utf8_scalar: "scalar_text s \<Longrightarrow> \<exists>bs. encode_utf8 s = Inr bs"
proof (induction s)
  case Nil
  then show ?case by simp
next
  case (Cons c cs)
  then have "\<exists>bs. utf8 c = Inr bs" using utf8_scalar by (simp add: scalar_text_def)
  moreover have "\<exists>bs. encode_utf8 cs = Inr bs" using Cons by (simp add: scalar_text_def)
  ultimately show ?case by auto
qed

lemma quote_scalar: "scalar_text s \<Longrightarrow> \<exists>e. quote s = Inr e"
  using encode_utf8_scalar [of s] by (auto simp: quote_def)

subsection \<open>The engine finds the texts the pattern describes\<close>

lemma backoff_sound:
  "backoff lo n s k = Some x \<Longrightarrow> \<exists>m. lo \<le> m \<and> m \<le> n \<and> k (drop m s) = Some x"
proof (induction n)
  case 0
  then show ?case by (auto split: if_splits)
next
  case (Suc n)
  show ?case
  proof (cases "k (drop (Suc n) s)")
    case None
    then have "backoff lo n s k = Some x" using Suc.prems by (simp split: if_splits)
    then obtain m where "lo \<le> m" "m \<le> n" "k (drop m s) = Some x" using Suc.IH by blast
    then show ?thesis using le_Suc_eq by blast
  next
    case (Some y)
    then have "y = x" "lo \<le> Suc n" using Suc.prems by (auto split: if_splits)
    then show ?thesis using Some by blast
  qed
qed

lemma backoff_complete:
  "lo \<le> m \<Longrightarrow> m \<le> n \<Longrightarrow> k (drop m s) \<noteq> None \<Longrightarrow> backoff lo n s k \<noteq> None"
proof (induction n)
  case 0
  then show ?case by simp
next
  case (Suc n)
  show ?case
  proof (cases "m = Suc n")
    case True
    then show ?thesis using Suc.prems by (auto split: option.splits)
  next
    case False
    then have "m \<le> n" using Suc.prems by simp
    then have "backoff lo n s k \<noteq> None" using Suc by blast
    moreover have "\<not> Suc n < lo" using Suc.prems by simp
    ultimately show ?thesis by (simp split: option.splits)
  qed
qed

lemma take_takeWhile:
  "m \<le> length (takeWhile P xs) \<Longrightarrow> take m (takeWhile P xs) = take m xs"
proof (induction xs arbitrary: m)
  case Nil
  then show ?case by simp
next
  case (Cons x xs)
  then show ?case by (cases m) (auto split: if_splits)
qed

lemma takeWhile_prefix_all:
  assumes "m \<le> length (takeWhile P xs)"
  shows "(\<forall>c \<in> set (take m xs). P c) \<and> m \<le> length xs"
proof -
  have "set (take m xs) \<subseteq> set (takeWhile P xs)"
    using take_takeWhile [OF assms] set_take_subset [of m "takeWhile P xs"] by simp
  moreover have "length (takeWhile P xs) \<le> length xs" by (rule length_takeWhile_le)
  ultimately show ?thesis using assms by (auto dest: set_takeWhileD)
qed

lemma run_length_sound:
  assumes "m \<le> run_length cs hi s"
  shows "(\<forall>c \<in> set (take m s). in_cset cs c) \<and> m \<le> length s \<and> at_most hi m"
proof (cases hi)
  case None
  then show ?thesis using assms takeWhile_prefix_all [of m "in_cset cs" s]
    by (simp add: run_length_def at_most_def)
next
  case (Some h)
  then have a: "m \<le> length (takeWhile (in_cset cs) (take h s))"
    using assms by (simp add: run_length_def)
  then have b: "(\<forall>c \<in> set (take m (take h s)). in_cset cs c) \<and> m \<le> length (take h s)"
    by (rule takeWhile_prefix_all)
  then have "m \<le> h" "m \<le> length s" by simp_all
  then show ?thesis using b Some by (simp add: at_most_def min_def)
qed

lemma run_length_complete:
  assumes "\<forall>c \<in> set w. in_cset cs c" "at_most hi (length w)"
  shows "length w \<le> run_length cs hi (w @ s')"
proof -
  have "takeWhile (in_cset cs) (w @ r) = w @ takeWhile (in_cset cs) r" for r
    using assms(1) by (simp add: takeWhile_append2)
  moreover have "hi = Some h \<Longrightarrow> take h (w @ s') = w @ take (h - length w) s'" for h
    using assms(2) by (simp add: at_most_def)
  ultimately show ?thesis by (cases hi) (simp_all add: run_length_def)
qed

lemma bt_sound:
  "bt r s g k = Some x \<Longrightarrow> \<exists>w s' g'. s = w @ s' \<and> matches r w g g' \<and> k s' g' = Some x"
proof (induction r arbitrary: s g k x)
  case (Lit c)
  then show ?case by (auto split: list.splits if_splits)
next
  case (Rep cs lo hi)
  then obtain m where m: "lo \<le> m" "m \<le> run_length cs hi s" "k (drop m s) g = Some x"
    using backoff_sound [of lo "run_length cs hi s" s "\<lambda>s'. k s' g" x] by auto
  have "(\<forall>c \<in> set (take m s). in_cset cs c) \<and> m \<le> length s \<and> at_most hi m"
    using m(2) by (rule run_length_sound)
  moreover from this have "length (take m s) = m" by simp
  ultimately have "matches (Rep cs lo hi) (take m s) g g" using m(1) by simp
  moreover have "s = take m s @ drop m s" by simp
  ultimately show ?case using m(3) by blast
next
  case (Seq a b)
  from Seq.prems have "bt a s g (\<lambda>s' g'. bt b s' g' k) = Some x" by simp
  then obtain w1 s1 g1 where 1: "s = w1 @ s1" "matches a w1 g g1" "bt b s1 g1 k = Some x"
    using Seq.IH(1) by blast
  then obtain w2 s2 g2 where 2: "s1 = w2 @ s2" "matches b w2 g1 g2" "k s2 g2 = Some x"
    using Seq.IH(2) by blast
  have "s = (w1 @ w2) @ s2" using 1 2 by simp
  moreover have "matches (Seq a b) (w1 @ w2) g g2" using 1 2 by auto
  ultimately show ?case using 2(3) by blast
next
  case (Alt a b)
  show ?case
  proof (cases "bt a s g k")
    case None
    then have "bt b s g k = Some x" using Alt.prems by simp
    then show ?thesis using Alt.IH(2) by fastforce
  next
    case (Some y)
    then have "bt a s g k = Some x" using Alt.prems by simp
    then show ?thesis using Alt.IH(1) by fastforce
  qed
next
  case (Grp a)
  from Grp.prems
  have "bt a s g (\<lambda>s' g'. k s' (Some (take (length s - length s') s))) = Some x" by simp
  then obtain w s' g1 where
    1: "s = w @ s'" "matches a w g g1" "k s' (Some (take (length s - length s') s)) = Some x"
    using Grp.IH by blast
  have "take (length s - length s') s = w" using 1(1) by simp
  then have "k s' (Some w) = Some x" using 1(3) by simp
  moreover have "matches (Grp a) w g (Some w)" using 1(2) by auto
  ultimately show ?case using 1(1) by blast
next
  case Eps
  then show ?case by simp
qed

lemma bt_complete:
  "lang r w \<Longrightarrow> (\<forall>g'. k s' g' \<noteq> None) \<Longrightarrow> bt r (w @ s') g k \<noteq> None"
proof (induction r arbitrary: w s' g k)
  case (Lit c)
  then show ?case by simp
next
  case (Rep cs lo hi)
  then have "length w \<le> run_length cs hi (w @ s')"
    using run_length_complete by simp
  moreover have "lo \<le> length w" using Rep.prems by simp
  moreover have "k (drop (length w) (w @ s')) g \<noteq> None" using Rep.prems by simp
  ultimately show ?case
    using backoff_complete [of lo "length w" "run_length cs hi (w @ s')" "\<lambda>s'. k s' g" "w @ s'"]
    by simp
next
  case (Seq a b)
  then obtain w1 w2 where w: "w = w1 @ w2" "lang a w1" "lang b w2" by auto
  have "\<forall>g'. bt b (w2 @ s') g' k \<noteq> None" using Seq.IH(2) w(3) Seq.prems(2) by blast
  then have "bt a (w1 @ (w2 @ s')) g (\<lambda>s1 g1. bt b s1 g1 k) \<noteq> None"
    using Seq.IH(1) [OF w(2), of "\<lambda>s1 g1. bt b s1 g1 k" "w2 @ s'" g] by simp
  then show ?case using w(1) by simp
next
  case (Alt a b)
  show ?case
  proof (cases "bt a (w @ s') g k")
    case None
    then have "\<not> lang a w" using Alt.IH(1) Alt.prems(2) by blast
    then have "lang b w" using Alt.prems(1) by simp
    then show ?thesis using None Alt.IH(2) Alt.prems(2) by simp
  next
    case (Some y)
    then show ?thesis by simp
  qed
next
  case (Grp a)
  then show ?case by simp
next
  case Eps
  then show ?case by simp
qed

lemma matches_lang: "matches r w g g' \<Longrightarrow> lang r w"
proof (induction r arbitrary: w g g')
  case (Seq a b)
  then obtain w1 w2 g1 where "w = w1 @ w2" "matches a w1 g g1" "matches b w2 g1 g'" by auto
  then have "w = w1 @ w2 \<and> lang a w1 \<and> lang b w2" using Seq.IH by blast
  then show ?case unfolding lang.simps by blast
qed auto

lemma match_here_sound:
  "match_here r s = Some (g, rest) \<Longrightarrow> \<exists>w. s = w @ rest \<and> matches r w None g"
  using bt_sound [of r s None "\<lambda>s' g. Some (g, s')" "(g, rest)"]
  by (auto simp: match_here_def)

lemma match_here_complete: "lang r w \<Longrightarrow> match_here r (w @ rest) \<noteq> None"
  using bt_complete [of r w "\<lambda>s' g. Some (g, s')" rest None]
  by (simp add: match_here_def)

lemma occurs_at_0: "occurs_at P s 0 \<longleftrightarrow> (\<exists>w rest. s = w @ rest \<and> P w)"
  by (simp add: occurs_at_def)

lemma occurs_at_Suc: "occurs_at P (x # xs) (Suc n) \<longleftrightarrow> occurs_at P xs n"
  by (simp add: occurs_at_def)

lemma match_here_None: "match_here r s = None \<Longrightarrow> \<not> occurs_at (lang r) s 0"
proof
  assume n: "match_here r s = None" and "occurs_at (lang r) s 0"
  then obtain w rest where "s = w @ rest" "lang r w" by (auto simp: occurs_at_0)
  then show False using n match_here_complete [of r w rest] by simp
qed

lemma match_here_Some: "match_here r s = Some m \<Longrightarrow> occurs_at (lang r) s 0"
proof -
  assume a: "match_here r s = Some m"
  obtain g rest where "m = (g, rest)" by (cases m)
  then obtain w where "s = w @ rest" "matches r w None g"
    using a match_here_sound [of r s g rest] by auto
  then have "s = w @ rest \<and> lang r w" using matches_lang [of r w None g] by simp
  then show ?thesis unfolding occurs_at_0 by blast
qed

lemma occurs_at_Cons:
  "occurs_at P (x # xs) n \<longleftrightarrow> (case n of 0 \<Rightarrow> occurs_at P (x # xs) 0 | Suc m \<Rightarrow> occurs_at P xs m)"
  by (cases n) (simp_all add: occurs_at_Suc)

lemma re_search_None: "re_search r s = None \<longleftrightarrow> (\<forall>n. \<not> occurs_at (lang r) s n)"
proof (induction s)
  case Nil
  have "(\<forall>n. \<not> occurs_at (lang r) [] n) \<longleftrightarrow> \<not> occurs_at (lang r) [] 0"
    by (auto simp: occurs_at_def)
  moreover have "match_here r [] = None \<longleftrightarrow> \<not> occurs_at (lang r) [] 0"
    using match_here_None [of r "[]"] match_here_Some [of r "[]"] by (cases "match_here r []") simp_all
  ultimately show ?case by simp
next
  case (Cons x xs)
  have 0: "match_here r (x # xs) = None \<longleftrightarrow> \<not> occurs_at (lang r) (x # xs) 0"
    using match_here_None [of r "x # xs"] match_here_Some [of r "x # xs"]
    by (cases "match_here r (x # xs)") simp_all
  have "(\<forall>n. \<not> occurs_at (lang r) (x # xs) n) \<longleftrightarrow>
        \<not> occurs_at (lang r) (x # xs) 0 \<and> (\<forall>m. \<not> occurs_at (lang r) xs m)"
  proof
    assume a: "\<forall>n. \<not> occurs_at (lang r) (x # xs) n"
    have "\<not> occurs_at (lang r) xs m" for m using a [rule_format, of "Suc m"] by (simp add: occurs_at_Suc)
    then show "\<not> occurs_at (lang r) (x # xs) 0 \<and> (\<forall>m. \<not> occurs_at (lang r) xs m)"
      using a by simp
  next
    assume a: "\<not> occurs_at (lang r) (x # xs) 0 \<and> (\<forall>m. \<not> occurs_at (lang r) xs m)"
    show "\<forall>n. \<not> occurs_at (lang r) (x # xs) n"
    proof
      fix n show "\<not> occurs_at (lang r) (x # xs) n"
        using a by (cases n) (simp_all add: occurs_at_Suc)
    qed
  qed
  moreover have "re_search r (x # xs) = None \<longleftrightarrow>
        match_here r (x # xs) = None \<and> re_search r xs = None"
    by (simp split: option.splits)
  ultimately show ?case using 0 Cons.IH by simp
qed

lemma re_search_Some:
  "re_search r s = Some (g, rest) \<Longrightarrow>
     \<exists>n w. n \<le> length s \<and> drop n s = w @ rest \<and> matches r w None g \<and>
           (\<forall>m < n. \<not> occurs_at (lang r) s m)"
proof (induction s)
  case Nil
  then have "match_here r [] = Some (g, rest)" by simp
  then obtain w where "[] = w @ rest" "matches r w None g"
    using match_here_sound [of r "[]" g rest] by auto
  then have "0 \<le> length ([]::pystr) \<and> drop 0 [] = w @ rest \<and> matches r w None g \<and>
           (\<forall>m < 0. \<not> occurs_at (lang r) [] m)" by simp
  then show ?case by blast
next
  case (Cons x xs)
  show ?case
  proof (cases "match_here r (x # xs)")
    case None
    then have "re_search r xs = Some (g, rest)" using Cons.prems by simp
    then obtain n w where n: "n \<le> length xs" "drop n xs = w @ rest" "matches r w None g"
        "\<forall>m < n. \<not> occurs_at (lang r) xs m"
      using Cons.IH by blast
    have z: "\<not> occurs_at (lang r) (x # xs) 0" using None by (rule match_here_None)
    have "\<forall>m < Suc n. \<not> occurs_at (lang r) (x # xs) m"
    proof (intro allI impI)
      fix m assume "m < Suc n"
      then show "\<not> occurs_at (lang r) (x # xs) m"
        using z n(4) by (cases m) (simp_all add: occurs_at_Suc)
    qed
    then have "Suc n \<le> length (x # xs) \<and> drop (Suc n) (x # xs) = w @ rest \<and>
        matches r w None g \<and> (\<forall>m < Suc n. \<not> occurs_at (lang r) (x # xs) m)"
      using n by simp
    then show ?thesis by blast
  next
    case (Some m)
    then have "match_here r (x # xs) = Some (g, rest)" using Cons.prems by simp
    then obtain w where "x # xs = w @ rest" "matches r w None g"
      using match_here_sound [of r "x # xs" g rest] by auto
    then have "0 \<le> length (x # xs) \<and> drop 0 (x # xs) = w @ rest \<and> matches r w None g \<and>
           (\<forall>m < 0. \<not> occurs_at (lang r) (x # xs) m)" by simp
    then show ?thesis by blast
  qed
qed

subsection \<open>The texts the handler's patterns match\<close>

lemma matches_lits: "matches (lits s) w g g' \<longleftrightarrow> w = s \<and> g' = g"
proof (induction s arbitrary: w)
  case Nil
  then show ?case by (simp add: lits_def)
next
  case (Cons c s)
  have "matches (lits (c # s)) w g g' \<longleftrightarrow>
        (\<exists>w1 w2 g1. w = w1 @ w2 \<and> (w1 = [c] \<and> g1 = g) \<and> matches (lits s) w2 g1 g')"
    by (simp add: lits_def)
  also have "\<dots> \<longleftrightarrow> (\<exists>w2. w = c # w2 \<and> w2 = s \<and> g' = g)"
    using Cons.IH by auto
  finally show ?case by auto
qed

lemma matches_Seq_lits:
  "matches (Seq (lits s) r) w g g' \<longleftrightarrow> (\<exists>w2. w = s @ w2 \<and> matches r w2 g g')"
  by (auto simp: matches_lits)

lemma matches_Seq_Rep:
  "matches (Seq (Rep cs lo hi) r) w g g' \<longleftrightarrow>
     (\<exists>a w2. w = a @ w2 \<and> (\<forall>c \<in> set a. in_cset cs c) \<and> lo \<le> length a \<and>
        at_most hi (length a) \<and> matches r w2 g g')"
  by auto

lemma matches_Seq_Grp:
  "matches (Seq (Grp a) r) w g g' \<longleftrightarrow>
     (\<exists>v w2. w = v @ w2 \<and> (\<exists>g1. matches a v g g1) \<and> matches r w2 (Some v) g')"
  by auto

lemma in_cset_excl: "in_cset (excl s) c \<longleftrightarrow> c \<notin> of_char ` set s"
  by (auto simp: in_cset_def excl_def)

lemma excl_gt: "(\<forall>c \<in> set a. in_cset (excl ''>'') c) \<longleftrightarrow> 62 \<notin> set a"
  by (auto simp: in_cset_excl)

lemma excl_quote: "(\<forall>c \<in> set a. in_cset (excl ''\"'') c) \<longleftrightarrow> 34 \<notin> set a"
  by (auto simp: in_cset_excl)

lemma matches_Seq_plus:
  "matches (Seq (plus cs) r) w g g' \<longleftrightarrow>
     (\<exists>a w2. w = a @ w2 \<and> (\<forall>c \<in> set a. in_cset cs c) \<and> a \<noteq> [] \<and> matches r w2 g g')"
  by (auto simp: plus_def at_most_def Suc_le_eq)

lemma matches_Seq_star:
  "matches (Seq (star cs) r) w g g' \<longleftrightarrow>
     (\<exists>a w2. w = a @ w2 \<and> (\<forall>c \<in> set a. in_cset cs c) \<and> matches r w2 g g')"
  by (auto simp: star_def at_most_def)

lemma cat_Cons: "cat (r # rs) = Seq r (cat rs)"
  by (simp add: cat_def)

lemma matches_cat_Nil: "matches (cat []) w g g' \<longleftrightarrow> w = [] \<and> g' = g"
  by (simp add: cat_def)

lemma matches_media:
  assumes "34 \<notin> set ext"
  shows "matches (media_pattern opening attr ext) w g g' \<longleftrightarrow>
           (\<exists>v. g' = Some v \<and> media_tag opening attr ext w v)"
proof
  assume "matches (media_pattern opening attr ext) w g g'"
  then obtain a v p q b where
    "w = opening @ a @ attr @ v @ str ''\"'' @ b @ str ''>''" "62 \<notin> set a" "a \<noteq> []"
    "v = p @ ext @ q" "34 \<notin> set p" "p \<noteq> []" "34 \<notin> set q" "62 \<notin> set b" "g' = Some v"
    by (simp only: media_pattern_def cat_Cons matches_Seq_lits matches_Seq_plus matches_Seq_star
       matches_Seq_Grp matches_cat_Nil excl_gt excl_quote) auto
  then show "\<exists>v. g' = Some v \<and> media_tag opening attr ext w v"
    using assms unfolding media_tag_def by (auto simp: str_def)
next
  assume "\<exists>v. g' = Some v \<and> media_tag opening attr ext w v"
  then obtain a v p q b where
    f: "w = opening @ a @ attr @ v @ [34] @ b @ [62]" "62 \<notin> set a" "a \<noteq> []"
    "v = p @ ext @ q" "34 \<notin> set v" "p \<noteq> []" "62 \<notin> set b" "g' = Some v"
    unfolding media_tag_def by blast
  have s: "str ''\"'' = [34]" "str ''>'' = [62]" by (simp_all add: str_def)
  have 1: "matches (cat [lits (str ''\"''), star (excl ''>''), lits (str ''>'')])
             ([34] @ b @ [62]) (Some v) (Some v)"
    unfolding cat_Cons matches_Seq_lits matches_Seq_star matches_cat_Nil excl_gt s
    using f(7) by blast
  have 2: "matches (cat [plus (excl ''\"''), lits ext, star (excl ''\"'')]) v g g"
    unfolding cat_Cons matches_Seq_lits matches_Seq_plus matches_Seq_star matches_cat_Nil excl_quote
    using f(4,5,6) by auto
  have 3: "matches (Seq (Grp (cat [plus (excl ''\"''), lits ext, star (excl ''\"'')]))
             (cat [lits (str ''\"''), star (excl ''>''), lits (str ''>'')]))
             (v @ [34] @ b @ [62]) g (Some v)"
    unfolding matches_Seq_Grp using 1 2 by blast
  have 4: "matches (Seq (lits attr) (Seq (Grp (cat [plus (excl ''\"''), lits ext, star (excl ''\"'')]))
             (cat [lits (str ''\"''), star (excl ''>''), lits (str ''>'')])))
             (attr @ v @ [34] @ b @ [62]) g (Some v)"
    unfolding matches_Seq_lits using 3 by blast
  have 5: "matches (Seq (plus (excl ''>'')) (Seq (lits attr)
             (Seq (Grp (cat [plus (excl ''\"''), lits ext, star (excl ''\"'')]))
             (cat [lits (str ''\"''), star (excl ''>''), lits (str ''>'')]))))
             (a @ attr @ v @ [34] @ b @ [62]) g (Some v)"
    unfolding matches_Seq_plus excl_gt using 4 f(2,3) by blast
  show "matches (media_pattern opening attr ext) w g g'"
    unfolding media_pattern_def cat_Cons [of "lits opening"] cat_Cons [of "plus (excl ''>'')"]
              cat_Cons [of "lits attr"] cat_Cons [of "Grp _"] matches_Seq_lits [of "opening"]
    using 5 f(1,8) unfolding cat_Cons by blast
qed

lemma lang_matches: "lang r w \<Longrightarrow> \<exists>g'. matches r w g g'"
proof (induction r arbitrary: w g)
  case (Seq a b)
  then obtain w1 w2 where w: "w = w1 @ w2" "lang a w1" "lang b w2" by auto
  obtain g1 where 1: "matches a w1 g g1" using Seq.IH(1) w(2) by blast
  obtain g2 where 2: "matches b w2 g1 g2" using Seq.IH(2) w(3) by blast
  have "w = w1 @ w2 \<and> matches a w1 g g1 \<and> matches b w2 g1 g2" using w 1 2 by simp
  then show ?case unfolding matches.simps by blast
next
  case (Alt a b)
  from Alt.prems have "lang a w \<or> lang b w" by simp
  then show ?case
  proof
    assume "lang a w"
    then obtain g' where "matches a w g g'" using Alt.IH(1) by blast
    then show ?thesis by auto
  next
    assume "lang b w"
    then obtain g' where "matches b w g g'" using Alt.IH(2) by blast
    then show ?thesis by auto
  qed
qed auto

lemma matches_plus:
  "matches (plus cs) w g g' \<longleftrightarrow> g' = g \<and> (\<forall>c \<in> set w. in_cset cs c) \<and> w \<noteq> []"
  by (auto simp: plus_def at_most_def Suc_le_eq)

lemma lang_iff_matches: "lang r w \<longleftrightarrow> (\<exists>g'. matches r w None g')"
  using lang_matches matches_lang by blast

lemma video_pattern_media:
  "video_pattern = media_pattern (str ''<a'') (str ''href=\"'') (str ''.mp4'')"
  by (simp add: video_pattern_def media_pattern_def)

lemma thumb_pattern_media:
  "thumb_pattern = media_pattern (str ''<a'') (str ''href=\"'') (str ''.jpg'')"
  by (simp add: thumb_pattern_def media_pattern_def)

lemma alt_thumb_pattern_media:
  "alt_thumb_pattern = media_pattern (str ''<img'') (str ''src=\"'') (str ''.jpg'')"
  by (simp add: alt_thumb_pattern_def media_pattern_def)

lemma no_quote_ext: "34 \<notin> set (str ''.mp4'')" "34 \<notin> set (str ''.jpg'')"
  by (simp_all add: str_def)

lemma matches_video:
  "matches video_pattern w g g' \<longleftrightarrow>
     (\<exists>v. g' = Some v \<and> media_tag (str ''<a'') (str ''href=\"'') (str ''.mp4'') w v)"
  unfolding video_pattern_media by (rule matches_media) (rule no_quote_ext)

lemma matches_thumb:
  "matches thumb_pattern w g g' \<longleftrightarrow>
     (\<exists>v. g' = Some v \<and> media_tag (str ''<a'') (str ''href=\"'') (str ''.jpg'') w v)"
  unfolding thumb_pattern_media by (rule matches_media) (rule no_quote_ext)

lemma matches_alt_thumb:
  "matches alt_thumb_pattern w g g' \<longleftrightarrow>
     (\<exists>v. g' = Some v \<and> media_tag (str ''<img'') (str ''src=\"'') (str ''.jpg'') w v)"
  unfolding alt_thumb_pattern_media by (rule matches_media) (rule no_quote_ext)

lemma matches_thumb_base64:
  "matches thumb_base64_pattern w g g' \<longleftrightarrow> (\<exists>p. g' = Some p \<and> data_uri_tag w p)"
proof
  assume "matches thumb_base64_pattern w g g'"
  then obtain a p where
    "w = str ''<img'' @ a @ str ''src=\"data:image/jpg;base64,'' @ p @ str ''\"''"
    "62 \<notin> set a" "a \<noteq> []" "34 \<notin> set p" "p \<noteq> []" "g' = Some p"
    by (simp only: thumb_base64_pattern_def cat_Cons matches_Seq_lits matches_Seq_plus
          matches_Seq_Grp matches_cat_Nil matches_plus excl_gt excl_quote) auto
  then show "\<exists>p. g' = Some p \<and> data_uri_tag w p"
    unfolding data_uri_tag_def by (auto simp: str_def)
next
  assume "\<exists>p. g' = Some p \<and> data_uri_tag w p"
  then obtain a p where
    f: "w = str ''<img'' @ a @ str ''src=\"data:image/jpg;base64,'' @ p @ [34]"
       "a \<noteq> []" "62 \<notin> set a" "p \<noteq> []" "34 \<notin> set p" "g' = Some p"
    unfolding data_uri_tag_def by blast
  have s: "str ''\"'' = [34]" by (simp add: str_def)
  have 1: "matches (cat [lits (str ''\"'')]) [34] (Some p) (Some p)"
    unfolding cat_Cons matches_Seq_lits matches_cat_Nil s by blast
  have 2: "matches (plus (excl ''\"'')) p g g"
    unfolding matches_plus excl_quote using f(4,5) by simp
  have 3: "matches (Seq (Grp (plus (excl ''\"''))) (cat [lits (str ''\"'')])) (p @ [34]) g (Some p)"
    unfolding matches_Seq_Grp using 1 2 by blast
  have 4: "matches (Seq (lits (str ''src=\"data:image/jpg;base64,''))
             (Seq (Grp (plus (excl ''\"''))) (cat [lits (str ''\"'')])))
             (str ''src=\"data:image/jpg;base64,'' @ p @ [34]) g (Some p)"
    unfolding matches_Seq_lits using 3 by blast
  have 5: "matches (Seq (plus (excl ''>'')) (Seq (lits (str ''src=\"data:image/jpg;base64,''))
             (Seq (Grp (plus (excl ''\"''))) (cat [lits (str ''\"'')]))))
             (a @ str ''src=\"data:image/jpg;base64,'' @ p @ [34]) g (Some p)"
    unfolding matches_Seq_plus excl_gt using 4 f(2,3) by blast
  show "matches thumb_base64_pattern w g g'"
    unfolding thumb_base64_pattern_def cat_Cons [of "lits (str ''<img'')"]
              cat_Cons [of "plus (excl ''>'')"] cat_Cons [of "lits (str ''src=\"data:image/jpg;base64,'')"]
              cat_Cons [of "Grp _"] matches_Seq_lits [of "str ''<img''"]
    using 5 f(1,6) by blast
qed

subsection \<open>\<open>html.unescape\<close> keeps a text with a dot nonempty\<close>

lemma matches_semi: "matches semi w g g' \<longleftrightarrow> g' = g \<and> (w = [] \<or> w = [59])"
proof -
  have "(\<forall>c \<in> set w. c = 59) \<and> length w \<le> 1 \<longleftrightarrow> w = [] \<or> w = [59::nat]"
    by (cases w) auto
  then show ?thesis by (auto simp: semi_def in_cset_def at_most_def)
qed

lemma matches_Seq_Lit:
  "matches (Seq (Lit c) r) w g g' \<longleftrightarrow> (\<exists>w2. w = c # w2 \<and> matches r w2 g g')"
  by auto

lemma matches_semi_end:
  "matches (Seq semi (cat [])) w g g' \<longleftrightarrow> g' = g \<and> (w = [] \<or> w = [59])"
  unfolding matches.simps(3) matches_semi matches_cat_Nil by auto

lemma in_digits: "in_cset digits c \<longleftrightarrow> 48 \<le> c \<and> c \<le> 57"
  by (simp add: in_cset_def digits_def)

lemma in_hexdigits:
  "in_cset hexdigits c \<longleftrightarrow> (48 \<le> c \<and> c \<le> 57) \<or> (97 \<le> c \<and> c \<le> 102) \<or> (65 \<le> c \<and> c \<le> 70)"
  by (auto simp: in_cset_def hexdigits_def)

text \<open>The three forms of a character reference after the ampersand.\<close>

lemma matches_decimal:
  assumes "matches (cat [Lit 35, plus digits, semi]) b g g'"
  shows "\<exists>ds sm. b = 35 # ds @ sm \<and> ds \<noteq> [] \<and> (\<forall>c \<in> set ds. 48 \<le> c \<and> c \<le> 57) \<and>
             (sm = [] \<or> sm = [59])"
proof -
  from assms obtain ds sm where
    "b = 35 # ds @ sm" "\<forall>c \<in> set ds. in_cset digits c" "ds \<noteq> []" "sm = [] \<or> sm = [59]"
    by (simp only: cat_Cons matches_Seq_Lit matches_Seq_plus matches_semi_end) auto
  then have "b = 35 # ds @ sm \<and> ds \<noteq> [] \<and> (\<forall>c \<in> set ds. 48 \<le> c \<and> c \<le> 57) \<and>
             (sm = [] \<or> sm = [59])"
    by (simp add: in_digits)
  then show ?thesis by (intro exI)
qed

lemma matches_hexadecimal:
  assumes "matches (cat [Lit 35, Rep \<lparr>negated = False, items = [One 120, One 88]\<rparr> 1 (Some 1),
                 plus hexdigits, semi]) b g g'"
  shows "\<exists>x hs sm. b = 35 # x # hs @ sm \<and> (x = 120 \<or> x = 88) \<and> hs \<noteq> [] \<and>
        (\<forall>c \<in> set hs. in_cset hexdigits c) \<and> (sm = [] \<or> sm = [59])"
proof -
  from assms obtain xs hs sm where
    b: "b = 35 # xs @ hs @ sm"
       "\<forall>c \<in> set xs. in_cset \<lparr>negated = False, items = [One 120, One 88]\<rparr> c"
       "1 \<le> length xs" "at_most (Some 1) (length xs)"
       "\<forall>c \<in> set hs. in_cset hexdigits c" "hs \<noteq> []" "sm = [] \<or> sm = [59]"
    by (simp only: cat_Cons matches_Seq_Lit matches_Seq_Rep matches_Seq_plus matches_semi_end)
       auto
  from b(3,4) obtain x where x: "xs = [x]" by (cases xs) (auto simp: at_most_def)
  then have "x = 120 \<or> x = 88" using b(2) by (simp add: in_cset_def)
  then have "b = 35 # x # hs @ sm \<and> (x = 120 \<or> x = 88) \<and> hs \<noteq> [] \<and>
        (\<forall>c \<in> set hs. in_cset hexdigits c) \<and> (sm = [] \<or> sm = [59])"
    using b x by simp
  then show ?thesis by (intro exI)
qed

lemma matches_name:
  assumes "matches (cat [Rep \<lparr>negated = True,
                      items = [One 9, One 10, One 12, One 32, One 60, One 38, One 35, One 59]\<rparr>
                   1 (Some 32), semi]) b g g'"
  shows "\<exists>nm sm. b = nm @ sm \<and> nm \<noteq> [] \<and> 35 \<notin> set nm \<and> (sm = [] \<or> sm = [59])"
proof -
  from assms obtain nm sm where
    b: "b = nm @ sm" "\<forall>c \<in> set nm. in_cset \<lparr>negated = True,
                      items = [One 9, One 10, One 12, One 32, One 60, One 38, One 35, One 59]\<rparr> c"
       "1 \<le> length nm" "sm = [] \<or> sm = [59]"
    by (simp only: cat_Cons matches_Seq_Rep matches_semi_end) auto
  have "35 \<notin> set nm" using b(2) by (auto simp: in_cset_def)
  moreover have "nm \<noteq> []" using b(3) by auto
  ultimately have "b = nm @ sm \<and> nm \<noteq> [] \<and> 35 \<notin> set nm \<and> (sm = [] \<or> sm = [59])"
    using b by simp
  then show ?thesis by (intro exI)
qed

lemma matches_charref:
  assumes "matches charref w g g'"
  shows "\<exists>b. w = 38 # b \<and> g' = Some b \<and>
     ((\<exists>ds sm. b = 35 # ds @ sm \<and> ds \<noteq> [] \<and> (\<forall>c \<in> set ds. 48 \<le> c \<and> c \<le> 57) \<and>
             (sm = [] \<or> sm = [59])) \<or>
      (\<exists>x hs sm. b = 35 # x # hs @ sm \<and> (x = 120 \<or> x = 88) \<and> hs \<noteq> [] \<and>
        (\<forall>c \<in> set hs. in_cset hexdigits c) \<and> (sm = [] \<or> sm = [59])) \<or>
      (\<exists>nm sm. b = nm @ sm \<and> nm \<noteq> [] \<and> 35 \<notin> set nm \<and> (sm = [] \<or> sm = [59])))"
proof -
  from assms obtain b g0 where b: "w = 38 # b" "g' = Some b" and
    alt: "matches (Alt (cat [Lit 35, plus digits, semi])
            (Alt (cat [Lit 35, Rep \<lparr>negated = False, items = [One 120, One 88]\<rparr> 1 (Some 1),
                       plus hexdigits, semi])
                 (cat [Rep \<lparr>negated = True,
                             items = [One 9, One 10, One 12, One 32, One 60, One 38, One 35, One 59]\<rparr>
                         1 (Some 32), semi]))) b g g0"
    by (simp only: charref_def matches_Seq_Lit matches.simps(5)) auto
  from alt consider
      (d) "matches (cat [Lit 35, plus digits, semi]) b g g0"
    | (h) "matches (cat [Lit 35, Rep \<lparr>negated = False, items = [One 120, One 88]\<rparr> 1 (Some 1),
                       plus hexdigits, semi]) b g g0"
    | (n) "matches (cat [Rep \<lparr>negated = True,
                             items = [One 9, One 10, One 12, One 32, One 60, One 38, One 35, One 59]\<rparr>
                         1 (Some 32), semi]) b g g0"
    unfolding matches.simps(4) by blast
  then show ?thesis
  proof cases
    case d
    then show ?thesis using b matches_decimal [of b g g0] by simp
  next
    case h
    then show ?thesis using b matches_hexadecimal [of b g g0] by simp
  next
    case n
    then show ?thesis using b matches_name [of b g g0] by simp
  qed
qed

lemma int_acc_total:
  "\<forall>c \<in> set s. digit_val base c \<noteq> None \<Longrightarrow> \<exists>n. int_acc base acc s = Inr n"
  by (induction s arbitrary: acc) auto

lemma py_int_long: "int_max_str_digits < length s \<Longrightarrow> py_int 10 s = Inl ValueError"
  by (auto simp: py_int_def)

lemma rstrip_semi_append:
  assumes "ds \<noteq> []" "59 \<notin> set ds" "sm = [] \<or> sm = [59]"
  shows "rstrip_semi (ds @ sm) = ds"
proof -
  obtain y ys where r: "rev ds = y # ys" using assms(1) by (cases "rev ds") auto
  then have "y \<in> set ds" by (metis list.set_intros(1) set_rev)
  then have "y \<noteq> 59" using assms(2) by auto
  then have "dropWhile (\<lambda>c. c = 59) (rev ds) = rev ds" using r by simp
  then have "dropWhile (\<lambda>c. c = 59) (rev (ds @ sm)) = rev ds" using assms(3) by auto
  then show ?thesis by (simp add: rstrip_semi_def)
qed

lemma longest_name_nonempty: "n < length s \<Longrightarrow> longest_name t s n \<noteq> []"
  by (induction n) (auto split: option.splits)

lemma replace_name:
  assumes "nm \<noteq> []" "35 \<notin> set nm"
  shows "\<exists>v. replace_charref t (Some (nm @ sm)) = Inr v \<and> (proper_table t \<longrightarrow> v \<noteq> [])"
proof -
  obtain c0 r where c: "nm @ sm = c0 # r" "c0 \<noteq> 35" using assms by (cases nm) auto
  show ?thesis
  proof (cases "t (c0 # r)")
    case None
    have "longest_name t (c0 # r) (length (c0 # r) - 1) \<noteq> []"
      by (rule longest_name_nonempty) simp
    then show ?thesis using None c by (simp add: replace_charref_def)
  next
    case (Some v)
    then have "proper_table t \<longrightarrow> v \<noteq> []" by (auto simp: proper_table_def)
    then show ?thesis using Some c by (simp add: replace_charref_def)
  qed
qed

text \<open>
  A reference whose text holds a dot is a named one, and its replacement is not empty.
\<close>

lemma replace_charref_dot:
  assumes "matches charref w g g'"
  shows "\<exists>b. w = 38 # b \<and> g' = Some b \<and>
     (proper_table t \<and> 46 \<in> set b \<longrightarrow> (\<exists>v. replace_charref t g' = Inr v \<and> v \<noteq> []))"
proof -
  from matches_charref [OF assms] obtain b where b: "w = 38 # b" "g' = Some b" and
    forms: "(\<exists>ds sm. b = 35 # ds @ sm \<and> ds \<noteq> [] \<and> (\<forall>c \<in> set ds. 48 \<le> c \<and> c \<le> 57) \<and>
             (sm = [] \<or> sm = [59])) \<or>
      (\<exists>x hs sm. b = 35 # x # hs @ sm \<and> (x = 120 \<or> x = 88) \<and> hs \<noteq> [] \<and>
        (\<forall>c \<in> set hs. in_cset hexdigits c) \<and> (sm = [] \<or> sm = [59])) \<or>
      (\<exists>nm sm. b = nm @ sm \<and> nm \<noteq> [] \<and> 35 \<notin> set nm \<and> (sm = [] \<or> sm = [59]))"
    by blast
  from forms consider
      (d) ds sm where "b = 35 # ds @ sm" "\<forall>c \<in> set ds. 48 \<le> c \<and> c \<le> 57" "sm = [] \<or> sm = [59]"
    | (h) x hs sm where "b = 35 # x # hs @ sm" "x = 120 \<or> x = 88"
          "\<forall>c \<in> set hs. in_cset hexdigits c" "sm = [] \<or> sm = [59]"
    | (n) nm sm where "b = nm @ sm" "nm \<noteq> []" "35 \<notin> set nm"
    by blast
  then have "proper_table t \<and> 46 \<in> set b \<longrightarrow> (\<exists>v. replace_charref t (Some b) = Inr v \<and> v \<noteq> [])"
  proof cases
    case d
    have "46 \<notin> set b" using d by auto
    then show ?thesis by simp
  next
    case h
    have "46 \<notin> set b" using h by (auto simp: in_hexdigits)
    then show ?thesis by simp
  next
    case n
    then show ?thesis using replace_name [OF n(2,3), of t sm] by auto
  qed
  then show ?thesis using b by blast
qed

lemma match_here_charref:
  assumes "match_here charref (x # xs) = Some (g, rest)"
  shows "\<exists>b. x = 38 \<and> xs = b @ rest \<and> g = Some b \<and>
     (proper_table t \<and> 46 \<in> set b \<longrightarrow> (\<exists>v. replace_charref t g = Inr v \<and> v \<noteq> []))"
proof -
  obtain w where w: "x # xs = w @ rest" "matches charref w None g"
    using match_here_sound [OF assms] by blast
  obtain b where b: "w = 38 # b" "g = Some b"
      "proper_table t \<and> 46 \<in> set b \<longrightarrow> (\<exists>v. replace_charref t g = Inr v \<and> v \<noteq> [])"
    using replace_charref_dot [OF w(2), of t] by blast
  have "x = 38 \<and> xs = b @ rest" using w(1) b(1) by simp
  then show ?thesis using b by blast
qed

lemma charref_sub_nonempty:
  "proper_table t \<Longrightarrow> charref_sub t k s = Inr out \<Longrightarrow> 46 \<in> set (drop k s) \<Longrightarrow> out \<noteq> []"
proof (induction s arbitrary: k out)
  case Nil
  then show ?case by simp
next
  case (Cons x xs)
  show ?case
  proof (cases k)
    case (Suc n)
    then show ?thesis using Cons.IH [of n out] Cons.prems by simp
  next
    case 0
    show ?thesis
    proof (cases "match_here charref (x # xs)")
      case None
      then show ?thesis using 0 Cons.prems(2) by (auto split: sum.splits)
    next
      case (Some m)
      obtain g rest where m: "m = (g, rest)" by (cases m)
      obtain b where b: "x = 38" "xs = b @ rest" "g = Some b"
          "proper_table t \<and> 46 \<in> set b \<longrightarrow> (\<exists>v. replace_charref t g = Inr v \<and> v \<noteq> [])"
        using match_here_charref [of x xs g rest t] Some m by auto
      obtain v out' where o: "replace_charref t g = Inr v"
          "charref_sub t (length xs - length rest) xs = Inr out'" "out = v @ out'"
        using 0 Some m Cons.prems(2) by (auto split: sum.splits)
      show ?thesis
      proof (cases "46 \<in> set b")
        case True
        then show ?thesis using b(4) Cons.prems(1) o(1,3) by auto
      next
        case False
        have "46 \<in> set (x # xs)" using Cons.prems(3) 0 by simp
        then have "46 \<in> set rest" using False b(1,2) by auto
        moreover have "drop (length xs - length rest) xs = rest" using b(2) by simp
        ultimately have "out' \<noteq> []"
          using Cons.IH [of "length xs - length rest" out'] Cons.prems(1) o(2) by simp
        then show ?thesis using o(3) by simp
      qed
    qed
  qed
qed

lemma unescape_nonempty:
  assumes "proper_table t" "unescape t s = Inr out" "46 \<in> set s"
  shows "out \<noteq> []"
proof (cases "38 \<in> set s")
  case True
  then have "charref_sub t 0 s = Inr out" using assms(2) by (simp add: unescape_def)
  then show ?thesis using charref_sub_nonempty [of t 0 s out] assms(1,3) by simp
next
  case False
  then have "out = s" using assms(2) by (simp add: unescape_def)
  then show ?thesis using assms(3) by auto
qed

lemma unescape_plain: "38 \<notin> set s \<Longrightarrow> unescape t s = Inr s"
  by (simp add: unescape_def)

subsection \<open>A decimal reference beyond the digit limit makes \<open>html.unescape\<close> raise\<close>

lemma backoff_first: "lo \<le> n \<Longrightarrow> k (drop n s) = Some r \<Longrightarrow> backoff lo n s k = Some r"
  by (cases n) auto

lemma run_length_ones: "run_length digits None (replicate n 49 @ 59 # rest) = n"
proof -
  have "takeWhile (in_cset digits) (replicate n 49 @ 59 # rest) = replicate n 49"
    by (induction n) (simp_all add: in_digits)
  then show ?thesis by (simp add: run_length_def)
qed

lemma bt_semi_end:
  assumes "k rest g = Some r"
  shows "bt (Seq semi (cat [])) (59 # rest) g k = Some r"
  using assms by (simp add: semi_def cat_def run_length_def in_cset_def)

lemma bt_decimal_ones:
  assumes "k rest g = Some r" "1 \<le> n"
  shows "bt (cat [Lit 35, plus digits, semi]) (35 # replicate n 49 @ 59 # rest) g k = Some r"
proof -
  have "bt (Seq semi (cat [])) (drop n (replicate n 49 @ 59 # rest)) g k = Some r"
    using bt_semi_end [of k rest g r] assms(1) by simp
  then have "backoff 1 n (replicate n 49 @ 59 # rest) (\<lambda>s'. bt (Seq semi (cat [])) s' g k) = Some r"
    using backoff_first [of 1 n "\<lambda>s'. bt (Seq semi (cat [])) s' g k"
            "replicate n 49 @ 59 # rest" r] assms(2)
    by simp
  then show ?thesis by (simp add: cat_Cons plus_def run_length_ones)
qed

lemma match_here_long:
  assumes "1 \<le> n"
  shows "match_here charref (38 # 35 # replicate n 49 @ 59 # rest) =
           Some (Some (35 # replicate n 49 @ [59]), rest)"
proof -
  let ?s1 = "35 # replicate n 49 @ 59 # rest"
  let ?k = "\<lambda>s' (g'::pystr option). Some (Some (take (length ?s1 - length s') ?s1), s')"
  have t: "take (length ?s1 - length rest) ?s1 = 35 # replicate n 49 @ [59]" by simp
  have "bt (cat [Lit 35, plus digits, semi]) ?s1 None ?k =
          Some (Some (take (length ?s1 - length rest) ?s1), rest)"
    using bt_decimal_ones [of "?k" rest None "(Some (take (length ?s1 - length rest) ?s1), rest)" n]
      assms
    by simp
  then have "bt (cat [Lit 35, plus digits, semi]) ?s1 None ?k =
          Some (Some (35 # replicate n 49 @ [59]), rest)"
    unfolding t .
  then show ?thesis by (simp add: match_here_def charref_def)
qed

lemma replace_charref_long:
  assumes "int_max_str_digits < n"
  shows "replace_charref t (Some (35 # replicate n 49 @ [59])) = Inl ValueError"
proof -
  obtain m where n: "n = Suc m" using assms by (cases n) auto
  have "rstrip_semi (replicate n 49 @ [59]) = replicate n 49"
    by (rule rstrip_semi_append) (simp_all add: n)
  moreover have "py_int 10 (replicate n 49) = Inl ValueError"
    by (rule py_int_long) (simp add: assms)
  ultimately have "py_int 10 (rstrip_semi (49 # replicate m 49 @ [59])) = Inl ValueError"
    by (simp add: n)
  then show ?thesis by (simp add: replace_charref_def n)
qed

lemma unescape_long:
  assumes "int_max_str_digits < n"
  shows "unescape t (38 # 35 # replicate n 49 @ 59 # rest) = Inl ValueError"
proof -
  have "1 \<le> n" using assms by simp
  then have "match_here charref (38 # 35 # replicate n 49 @ 59 # rest) =
           Some (Some (35 # replicate n 49 @ [59]), rest)"
    by (rule match_here_long)
  then have "charref_sub t 0 (38 # 35 # replicate n 49 @ 59 # rest) = Inl ValueError"
    using replace_charref_long [OF assms, of t] by simp
  then show ?thesis by (simp add: unescape_def)
qed

lemma long_reference_eq: "long_reference @ rest = 38 # 35 # replicate 4301 49 @ 59 # rest"
  by (simp add: long_reference_def str_def)

lemma unescape_long_reference: "unescape t (long_reference @ rest) = Inl ValueError"
  unfolding long_reference_eq by (rule unescape_long) (simp add: int_max_str_digits_def)

section \<open>Properties of the extraction\<close>

lemma search_tag:
  assumes M: "\<And>w g'. matches P w None g' \<longleftrightarrow> (\<exists>v. g' = Some v \<and> tag w v)"
  shows "(\<not> has tag page \<longrightarrow> re_search P page = None) \<and>
         (has tag page \<longrightarrow> (\<exists>v rest. re_search P page = Some (Some v, rest) \<and> first_of tag page v))"
proof -
  have L: "lang P = (\<lambda>w. \<exists>v. tag w v)"
  proof
    fix w show "lang P w = (\<exists>v. tag w v)"
      unfolding lang_iff_matches M by blast
  qed
  have N: "re_search P page = None \<longleftrightarrow> \<not> has tag page"
    unfolding re_search_None L has_def by blast
  have "\<exists>v rest. re_search P page = Some (Some v, rest) \<and> first_of tag page v" if h: "has tag page"
  proof -
    obtain g rest where r: "re_search P page = Some (g, rest)"
      using h N by (cases "re_search P page") auto
    obtain n w where n: "n \<le> length page" "drop n page = w @ rest" "matches P w None g"
        "\<forall>m < n. \<not> occurs_at (lang P) page m"
      using re_search_Some [OF r] by blast
    obtain v where v: "g = Some v" "tag w v" using n(3) M by blast
    have "n \<le> length page \<and> drop n page = w @ rest \<and> tag w v \<and>
        (\<forall>m < n. \<not> occurs_at (\<lambda>w. \<exists>v. tag w v) page m)"
      using n v L by simp
    then have "first_of tag page v" unfolding first_of_def by blast
    then show ?thesis using r v(1) by blast
  qed
  then show ?thesis using N by blast
qed

lemma search_video:
  "(\<not> has mp4_anchor page \<longrightarrow> re_search video_pattern page = None) \<and>
   (has mp4_anchor page \<longrightarrow>
      (\<exists>v rest. re_search video_pattern page = Some (Some v, rest) \<and> first_of mp4_anchor page v))"
  by (rule search_tag) (simp add: matches_video mp4_anchor_def)

lemma search_thumb:
  "(\<not> has jpg_anchor page \<longrightarrow> re_search thumb_pattern page = None) \<and>
   (has jpg_anchor page \<longrightarrow>
      (\<exists>v rest. re_search thumb_pattern page = Some (Some v, rest) \<and> first_of jpg_anchor page v))"
  by (rule search_tag) (simp add: matches_thumb jpg_anchor_def)

lemma search_alt_thumb:
  "(\<not> has jpg_image page \<longrightarrow> re_search alt_thumb_pattern page = None) \<and>
   (has jpg_image page \<longrightarrow>
      (\<exists>v rest. re_search alt_thumb_pattern page = Some (Some v, rest) \<and> first_of jpg_image page v))"
  by (rule search_tag) (simp add: matches_alt_thumb jpg_image_def)

lemma search_thumb_base64:
  "(\<not> has data_uri_tag page \<longrightarrow> re_search thumb_base64_pattern page = None) \<and>
   (has data_uri_tag page \<longrightarrow>
      (\<exists>p rest. re_search thumb_base64_pattern page = Some (Some p, rest) \<and>
                first_of data_uri_tag page p))"
  by (rule search_tag) (simp add: matches_thumb_base64)

lemma media_tag_dot:
  assumes "media_tag opn attr ext w v" "46 \<in> set ext"
  shows "46 \<in> set v"
  using assms unfolding media_tag_def by auto

lemma first_of_value: "first_of tag page v \<Longrightarrow> \<exists>w. tag w v"
  unfolding first_of_def by blast

lemma dot_ext: "46 \<in> set (str ''.mp4'')" "46 \<in> set (str ''.jpg'')"
  by (simp_all add: str_def)

lemma media_value_dot:
  "first_of mp4_anchor page v \<Longrightarrow> 46 \<in> set v"
  "first_of jpg_anchor page v \<Longrightarrow> 46 \<in> set v"
  "first_of jpg_image page v \<Longrightarrow> 46 \<in> set v"
  using first_of_value media_tag_dot dot_ext
  unfolding mp4_anchor_def jpg_anchor_def jpg_image_def by blast+

lemma unescape_match_None: "unescape_match t None = Inr []"
  by (simp add: unescape_match_def)

lemma unescape_match_Some: "unescape_match t (Some (Some v, rest)) = unescape t v"
  by (simp add: unescape_match_def)

lemma video_url_absent: "\<not> has mp4_anchor page \<Longrightarrow> video_url_of t page = Inr []"
  using search_video [of page] by (simp add: video_url_of_def unescape_match_None)

lemma video_url_present:
  assumes "has mp4_anchor page"
  shows "\<exists>v. first_of mp4_anchor page v \<and> video_url_of t page = unescape t v \<and>
           (\<forall>out. proper_table t \<and> unescape t v = Inr out \<longrightarrow> out \<noteq> [])"
proof -
  obtain v rest where v: "re_search video_pattern page = Some (Some v, rest)"
      "first_of mp4_anchor page v"
    using search_video [of "page"] assms by blast
  have "\<forall>out. proper_table t \<and> unescape t v = Inr out \<longrightarrow> out \<noteq> []"
    using unescape_nonempty [of t v] media_value_dot(1) [OF v(2)] by blast
  moreover have "video_url_of t page = unescape t v"
    using v(1) by (simp add: video_url_of_def unescape_match_Some)
  ultimately show ?thesis using v(2) by blast
qed

lemma thumb_url_anchor:
  assumes "has jpg_anchor page" "proper_table t"
  shows "\<exists>v. first_of jpg_anchor page v \<and> thumb_url_of t page = unescape t v"
proof -
  obtain v rest where v: "re_search thumb_pattern page = Some (Some v, rest)"
      "first_of jpg_anchor page v"
    using search_thumb [of "page"] assms(1) by blast
  have "thumb_url_of t page = unescape t v"
  proof (cases "unescape t v")
    case (Inl e)
    then show ?thesis using v(1) by (simp add: thumb_url_of_def unescape_match_Some)
  next
    case (Inr out)
    then have "out \<noteq> []"
      using unescape_nonempty [of t v out] media_value_dot(2) [OF v(2)] assms(2) by blast
    then show ?thesis using v(1) Inr by (simp add: thumb_url_of_def unescape_match_Some)
  qed
  then show ?thesis using v(2) by blast
qed

lemma thumb_url_image:
  assumes "\<not> has jpg_anchor page" "has jpg_image page"
  shows "\<exists>v. first_of jpg_image page v \<and> thumb_url_of t page = unescape t v"
proof -
  have n: "re_search thumb_pattern page = None" using search_thumb [of "page"] assms(1) by blast
  obtain v rest where v: "re_search alt_thumb_pattern page = Some (Some v, rest)"
      "first_of jpg_image page v"
    using search_alt_thumb [of "page"] assms(2) by blast
  have "thumb_url_of t page = unescape t v"
    using n v(1) by (simp add: thumb_url_of_def unescape_match_None unescape_match_Some)
  then show ?thesis using v(2) by blast
qed

lemma thumb_url_neither:
  assumes "\<not> has jpg_anchor page" "\<not> has jpg_image page"
  shows "thumb_url_of t page = Inr []"
proof -
  have "re_search thumb_pattern page = None" using search_thumb [of "page"] assms(1) by blast
  moreover have "re_search alt_thumb_pattern page = None"
    using search_alt_thumb [of "page"] assms(2) by blast
  ultimately show ?thesis by (simp add: thumb_url_of_def unescape_match_None)
qed


lemma extraction_thumb_raises:
  "video_url_of t page = Inr v \<Longrightarrow> thumb_url_of t page = Inl e \<Longrightarrow>
     extraction t url page = Inl e"
  by (simp add: extraction_def)

lemma extraction_returns:
  "video_url_of t page = Inr v \<Longrightarrow> thumb_url_of t page = Inr th \<Longrightarrow>
     extraction t url page =
       Inr (if v \<noteq> [] then success v th (thumbnail_base64_field (thumb_base64_of page)) url
            else not_found)"
  by (simp add: extraction_def)

lemma extraction_Inr:
  assumes "extraction t url page = Inr res"
  shows "\<exists>v th. video_url_of t page = Inr v \<and> thumb_url_of t page = Inr th \<and>
     res = (if v \<noteq> [] then success v th (thumbnail_base64_field (thumb_base64_of page)) url
            else not_found)"
  using assms by (auto simp: extraction_def split: sum.splits if_splits)

lemma base64_field_present:
  assumes "has data_uri_tag page"
  shows "\<exists>p. first_of data_uri_tag page p \<and>
     thumbnail_base64_field (thumb_base64_of page) = JString (str ''data:image/jpg;base64,'' @ p)"
proof -
  obtain p rest where p: "re_search thumb_base64_pattern page = Some (Some p, rest)"
      "first_of data_uri_tag page p"
    using search_thumb_base64 [of page] assms by blast
  obtain w where "data_uri_tag w p" using first_of_value [OF p(2)] by blast
  then have "p \<noteq> []" by (auto simp: data_uri_tag_def)
  then have "thumbnail_base64_field (thumb_base64_of page) =
      JString (str ''data:image/jpg;base64,'' @ p)"
    using p(1) by (simp add: thumbnail_base64_field_def thumb_base64_of_def)
  then show ?thesis using p(2) by blast
qed

lemma base64_field_absent:
  "\<not> has data_uri_tag page \<Longrightarrow> thumbnail_base64_field (thumb_base64_of page) = JNull"
  using search_thumb_base64 [of page]
  by (simp add: thumbnail_base64_field_def thumb_base64_of_def)

lemma re_search_skip:
  assumes "\<And>x xs. x \<noteq> 60 \<Longrightarrow> match_here P (x # xs) = None" "60 \<notin> set pre"
  shows "re_search P (pre @ s) = re_search P s"
  using assms(2)
proof (induction pre)
  case Nil
  show ?case by simp
next
  case (Cons x pre)
  then have "match_here P (x # pre @ s) = None" using assms(1) by simp
  then show ?case using Cons by simp
qed

lemma download_fetched:
  assumes "py_in (str ''instagram.com'') url \<or> py_in (str ''instagr.am'') url"
    "quote url = Inr enc" "upstream E (target_url enc) = Returns r" "raise_for_status r = None"
  shows "download_instagram_content E url =
     ((case extraction (html5 E) url (body r) of Inl e \<Rightarrow> unexpected E e | Inr res \<Rightarrow> res),
      [target_url enc])"
  using assms host_not_blank [OF assms(1)] by (simp add: download_instagram_content_def)

lemma raise_for_status_ok:
  "\<not> (400 \<le> status_code r \<and> status_code r < 600) \<Longrightarrow> raise_for_status r = None"
  by (auto simp: raise_for_status_def)

lemmas engine_defs =
  cat_def lits_def plus_def star_def excl_def str_def match_here_def run_length_def in_cset_def

lemma eval_video_sample:
  "re_search video_pattern sample_page =
     Some (Some (str ''https://cdn.example/video123.mp4?sig=abc''),
           str ''</a><img src=\"data:image/jpg;base64,AAAA\">'')"
  by (simp add: video_pattern_def sample_page_def engine_defs)

lemma eval_video_here:
  "match_here video_pattern
     (str ''<a href=\"https://cdn.example/video123.mp4?sig=abc\"></a>'' @ post) =
     Some (Some (str ''https://cdn.example/video123.mp4?sig=abc''), str ''</a>'' @ post)"
  by (simp add: video_pattern_def engine_defs)

subsection \<open>The pages with the long reference\<close>

lemma filter_absent: "c \<notin> set xs \<Longrightarrow> filter (\<lambda>x. x = c) xs = []"
  by (induction xs) auto

lemma split_at_first:
  "c \<notin> set xs \<Longrightarrow> c \<notin> set xs' \<Longrightarrow> xs @ c # ys = xs' @ c # ys' \<Longrightarrow>
     xs = xs' \<and> ys = ys'"
proof (induction xs arbitrary: xs')
  case Nil
  then show ?case by (cases xs') auto
next
  case (Cons x xs)
  then show ?case by (cases xs') auto
qed

lemma media_value_unique:
  assumes "page = P1 @ 34 # V @ 34 # P2" "34 \<notin> set P1" "34 \<notin> set V" "34 \<notin> set P2"
    and "page = pre @ w @ rest" "media_tag opn (at0 @ [34]) ext w v"
  shows "v = V"
proof -
  obtain a b where w: "w = opn @ a @ (at0 @ [34]) @ v @ [34] @ b @ [62]" "34 \<notin> set v"
    using assms(6) unfolding media_tag_def by blast
  define X where "X = pre @ opn @ a @ at0"
  define Y where "Y = b @ [62] @ rest"
  have e: "page = X @ 34 # v @ 34 # Y" using assms(5) w(1) by (simp add: X_def Y_def)
  have 1: "length (filter (\<lambda>c. c = 34) page) = 2"
    unfolding assms(1) using assms(2,3,4) by (simp add: filter_absent)
  have 2: "length (filter (\<lambda>c. c = 34) page) =
      length (filter (\<lambda>c. c = 34) X) + 2 + length (filter (\<lambda>c. c = 34) Y)"
    unfolding e using w(2) by (simp add: filter_absent)
  have "length (filter (\<lambda>c. c = 34) X) = 0" using 1 2 by linarith
  then have f: "filter (\<lambda>c. c = 34) X = []" by simp
  have x: "34 \<notin> set X"
  proof
    assume "34 \<in> set X"
    then have "34 \<in> set (filter (\<lambda>c. c = 34) X)" by simp
    then show False unfolding f by simp
  qed
  have eq: "X @ 34 # (v @ 34 # Y) = P1 @ 34 # (V @ 34 # P2)"
    using e assms(1) by simp
  have "X = P1 \<and> v @ 34 # Y = V @ 34 # P2"
    by (rule split_at_first [OF x assms(2) eq])
  then have eq2: "v @ 34 # Y = V @ 34 # P2" by (rule conjunct2)
  have "v = V \<and> Y = P2"
    by (rule split_at_first [OF w(2) assms(3) eq2])
  then show ?thesis by (rule conjunct1)
qed

lemma no_quote_long: "34 \<notin> set (long_reference @ str ''.jpg'')"
  "34 \<notin> set (long_reference @ str ''.mp4'')"
  by (simp_all add: long_reference_def str_def)

lemma long_thumb_page_eq:
  "long_thumb_page = str ''<a href='' @ 34 # (long_reference @ str ''.jpg'') @ 34 # [62]"
  by (simp add: long_thumb_page_def str_def)


lemma href_eq: "str ''href=\"'' = str ''href='' @ [34]"
  by (simp add: str_def)

lemma first_of_part:
  assumes "first_of tag page v"
  obtains pre w rest where "page = pre @ w @ rest" "tag w v"
proof -
  obtain n w rest where n: "n \<le> length page" "drop n page = w @ rest" "tag w v"
    using assms unfolding first_of_def by blast
  have "page = take n page @ w @ rest" using n(2) by (metis append_take_drop_id)
  then show ?thesis using that n(3) by blast
qed

lemma long_thumb_value:
  assumes "first_of jpg_anchor long_thumb_page v"
  shows "v = long_reference @ str ''.jpg''"
proof -
  obtain pre w rest where p: "long_thumb_page = pre @ w @ rest" "jpg_anchor w v"
    using assms by (rule first_of_part)
  have m: "media_tag (str ''<a'') (str ''href='' @ [34]) (str ''.jpg'') w v"
    using p(2) unfolding jpg_anchor_def href_eq .
  have q: "34 \<notin> set (str ''<a href='')" "34 \<notin> set [62::nat]" by (simp_all add: str_def)
  show ?thesis
    by (rule media_value_unique [OF long_thumb_page_eq q(1) no_quote_long(1) q(2) p(1) m])
qed


lemma has_long_thumb: "has jpg_anchor long_thumb_page"
proof -
  have "media_tag (str ''<a'') (str ''href=\"'') (str ''.jpg'') long_thumb_page
          (long_reference @ str ''.jpg'')"
    unfolding media_tag_def
  proof (intro exI conjI)
    show "long_thumb_page =
        str ''<a'' @ [32] @ str ''href=\"'' @ (long_reference @ str ''.jpg'') @ [34] @ [] @ [62]"
      by (simp add: long_thumb_page_def str_def)
    show "long_reference @ str ''.jpg'' = long_reference @ str ''.jpg'' @ []" by simp
    show "long_reference \<noteq> []" by (simp add: long_reference_def str_def)
    show "34 \<notin> set (long_reference @ str ''.jpg'')" by (rule no_quote_long(1))
  qed simp_all
  then have "occurs_at (\<lambda>w. \<exists>v. jpg_anchor w v) long_thumb_page 0"
    unfolding occurs_at_0 jpg_anchor_def
    by (intro exI [of _ long_thumb_page] exI [of _ "[]"] conjI
          exI [of _ "long_reference @ str ''.jpg''"]) simp_all
  then show ?thesis unfolding has_def by blast
qed


lemma no_video_long_thumb: "\<not> has mp4_anchor long_thumb_page"
proof
  assume "has mp4_anchor long_thumb_page"
  then obtain n w rest v where
    o: "drop n long_thumb_page = w @ rest" "mp4_anchor w v"
    unfolding has_def occurs_at_def by blast
  have "109 \<in> set w" using o(2) unfolding mp4_anchor_def media_tag_def by (auto simp: str_def)
  then have "109 \<in> set (drop n long_thumb_page)" using o(1) by simp
  then have "109 \<in> set long_thumb_page" by (rule in_set_dropD)
  then show False by (simp add: long_thumb_page_def long_reference_def str_def)
qed

lemma long_thumb_raises: "thumb_url_of t long_thumb_page = Inl ValueError"
proof -
  obtain v rest where v: "re_search thumb_pattern long_thumb_page = Some (Some v, rest)"
      "first_of jpg_anchor long_thumb_page v"
    using search_thumb [of long_thumb_page] has_long_thumb by blast
  have "unescape t v = Inl ValueError"
    unfolding long_thumb_value [OF v(2)] by (rule unescape_long_reference)
  then show ?thesis using v(1) by (simp add: thumb_url_of_def unescape_match_Some)
qed


section \<open>The claims\<close>

subsection \<open>Validation of the URL\<close>

text \<open>
  C1.  A URL that is empty, consists of white space only, or contains neither
  \<open>instagram.com\<close> nor \<open>instagr.am\<close> is rejected by \<open>GET /api/download\<close> with status
  400 and no request is sent upstream, whatever the environment.  A URL that contains one
  of the two and is the text of a query parameter passes the validation: exactly one
  request is sent, to the target built from the percent-encoded URL, and the result is
  not a 400.
\<close>

theorem get_validation:
  "(url = [] \<or> strip url = [] \<longrightarrow>
      download_instagram_content E url = (HTTPException 400 (str ''Missing Instagram URL''), [])) \<and>
   (\<not> (py_in (str ''instagram.com'') url \<or> py_in (str ''instagr.am'') url) \<longrightarrow>
      (\<exists>d. download_instagram_content E url = (HTTPException 400 d, []))) \<and>
   ((py_in (str ''instagram.com'') url \<or> py_in (str ''instagr.am'') url) \<and> scalar_text url \<longrightarrow>
      (\<exists>enc. quote url = Inr enc \<and>
             snd (download_instagram_content E url) = [target_url enc] \<and>
             (\<forall>d. fst (download_instagram_content E url) \<noteq> HTTPException 400 d)))"
proof (intro conjI impI)
  assume "url = [] \<or> strip url = []"
  then show "download_instagram_content E url =
      (HTTPException 400 (str ''Missing Instagram URL''), [])"
    by (simp add: download_instagram_content_def)
next
  assume "\<not> (py_in (str ''instagram.com'') url \<or> py_in (str ''instagr.am'') url)"
  then show "\<exists>d. download_instagram_content E url = (HTTPException 400 d, [])"
    by (simp add: download_instagram_content_def)
next
  assume a: "(py_in (str ''instagram.com'') url \<or> py_in (str ''instagr.am'') url) \<and> scalar_text url"
  then obtain enc where q: "quote url = Inr enc" using quote_scalar by blast
  have nb: "url \<noteq> [] \<and> strip url \<noteq> []" using a host_not_blank by blast
  have "snd (download_instagram_content E url) = [target_url enc]"
    using a nb q by (simp add: download_instagram_content_def)
  moreover have "\<forall>d. fst (download_instagram_content E url) \<noteq> HTTPException 400 d"
    using a nb q
    by (auto simp: download_instagram_content_def extraction_def success_def not_found_def
          unexpected_def
        split: outcome.splits exc_class.splits option.splits sum.splits)
  ultimately show "\<exists>enc. quote url = Inr enc \<and>
             snd (download_instagram_content E url) = [target_url enc] \<and>
             (\<forall>d. fst (download_instagram_content E url) \<noteq> HTTPException 400 d)"
    using q by blast
qed

theorem get_validation_witness:
  "download_instagram_content sample_env [] =
     (HTTPException 400 (str ''Missing Instagram URL''), []) \<and>
   (\<exists>d. download_instagram_content sample_env (str ''https://example.com/x'') =
     (HTTPException 400 d, [])) \<and>
   (\<exists>enc. quote sample_url = Inr enc \<and>
      snd (download_instagram_content sample_env sample_url) = [target_url enc] \<and>
      (\<forall>d. fst (download_instagram_content sample_env sample_url) \<noteq> HTTPException 400 d))"
proof -
  have a: "\<not> (py_in (str ''instagram.com'') (str ''https://example.com/x'') \<or>
              py_in (str ''instagr.am'') (str ''https://example.com/x''))"
    by (simp add: str_def)
  have b: "py_in (str ''instagram.com'') sample_url"
    by (simp add: str_def sample_url_def)
  have c: "scalar_text sample_url"
    by (simp add: str_def sample_url_def scalar_text_def)
  show ?thesis
    using get_validation [where url = "[]" and E = sample_env]
          get_validation [where url = "str ''https://example.com/x''" and E = sample_env]
          get_validation [where url = sample_url and E = sample_env] a b c
    by blast
qed

text \<open>
  C10.  \<open>POST /api/download\<close> rejects a body whose \<open>url\<close> is missing, \<open>null\<close> or the empty
  text by its own check, with status 400 and the detail
  \<open>Missing 'url' field in request body\<close>.  A nonempty \<open>url\<close> of white space only passes
  that check, is handed to the logic of \<open>GET\<close>, and is rejected there with status 400 and
  the detail \<open>Missing Instagram URL\<close>; the two details differ.
\<close>

theorem post_url_checks:
  "(request_data (str ''url'') = None \<or> request_data (str ''url'') = Some PNone \<or>
    request_data (str ''url'') = Some (PStr []) \<longrightarrow>
      download_instagram_content_post E request_data =
        (HTTPException 400 (str ''Missing 'url' field in request body''), [])) \<and>
   (request_data (str ''url'') = Some (PStr s) \<and> s \<noteq> [] \<and> strip s = [] \<longrightarrow>
      download_instagram_content_post E request_data = download_instagram_content E s \<and>
      download_instagram_content E s = (HTTPException 400 (str ''Missing Instagram URL''), [])) \<and>
   str ''Missing 'url' field in request body'' \<noteq> str ''Missing Instagram URL''"
proof (intro conjI impI)
  assume "request_data (str ''url'') = None \<or> request_data (str ''url'') = Some PNone \<or>
    request_data (str ''url'') = Some (PStr [])"
  then have "\<not> truthy (get_url request_data)"
    by (auto simp: get_url_def)
  then show "download_instagram_content_post E request_data =
        (HTTPException 400 (str ''Missing 'url' field in request body''), [])"
    by (simp add: download_instagram_content_post_def)
next
  assume a: "request_data (str ''url'') = Some (PStr s) \<and> s \<noteq> [] \<and> strip s = []"
  then have "get_url request_data = PStr s" by (simp add: get_url_def)
  then show "download_instagram_content_post E request_data = download_instagram_content E s"
    using a by (simp add: download_instagram_content_post_def)
  show "download_instagram_content E s = (HTTPException 400 (str ''Missing Instagram URL''), [])"
    using a by (simp add: download_instagram_content_def)
next
  show "str ''Missing 'url' field in request body'' \<noteq> str ''Missing Instagram URL''"
    by (simp add: str_def)
qed

theorem post_url_checks_witness:
  "download_instagram_content_post sample_env Map.empty =
     (HTTPException 400 (str ''Missing 'url' field in request body''), []) \<and>
   download_instagram_content_post sample_env [str ''url'' \<mapsto> PStr [32]] =
     (HTTPException 400 (str ''Missing Instagram URL''), [])"
  using post_url_checks [where request_data = Map.empty and E = sample_env]
        post_url_checks [where request_data = "[str ''url'' \<mapsto> PStr [32]]" and s = "[32]"
                           and E = sample_env]
  by (simp add: strip_def isspace_def)

subsection \<open>The responses\<close>

lemma has_video_sample: "has mp4_anchor sample_page"
  using search_video [of sample_page] eval_video_sample by auto

lemma no_video_plain: "\<not> has mp4_anchor no_video_page"
proof -
  have "re_search video_pattern no_video_page = None"
    by (simp add: video_pattern_def no_video_page_def engine_defs)
  then show ?thesis using search_video [of no_video_page] by auto
qed

lemma proper_sample_table: "proper_table sample_table"
  by (auto simp: proper_table_def sample_table_def split: if_splits)

lemma sample_url_host: "py_in (str ''instagram.com'') sample_url"
  by (simp add: str_def sample_url_def)

lemma sample_url_quote:
  "quote sample_url = Inr (str ''https%3A%2F%2Fwww.instagram.com%2Freel%2FCabc123%2F'')"
  by (simp add: quote_def sample_url_def str_def utf8_def quoter_def always_safe_def hexdigit_def)

lemma sample_video_url:
  "video_url_of sample_table sample_page = Inr (str ''https://cdn.example/video123.mp4?sig=abc'')"
proof -
  have "38 \<notin> set (str ''https://cdn.example/video123.mp4?sig=abc'')" by (simp add: str_def)
  then show ?thesis
    using eval_video_sample by (simp add: video_url_of_def unescape_match_Some unescape_plain)
qed

lemma sample_thumb_url: "thumb_url_of sample_table sample_page = Inr []"
proof -
  have "re_search thumb_pattern sample_page = None"
    by (simp add: thumb_pattern_def sample_page_def engine_defs)
  moreover have "re_search alt_thumb_pattern sample_page = None"
    by (simp add: alt_thumb_pattern_def sample_page_def engine_defs)
  ultimately show ?thesis by (simp add: thumb_url_of_def unescape_match_None)
qed

lemma sample_thumb_base64:
  "thumbnail_base64_field (thumb_base64_of sample_page) =
     JString (str ''data:image/jpg;base64,AAAA'')"
proof -
  have "re_search thumb_base64_pattern sample_page = Some (Some (str ''AAAA''), [62])"
    by (simp add: thumb_base64_pattern_def sample_page_def engine_defs)
  then show ?thesis by (simp add: thumbnail_base64_field_def thumb_base64_of_def str_def)
qed

lemma sample_download:
  "download_instagram_content sample_env sample_url =
     (success (str ''https://cdn.example/video123.mp4?sig=abc'') []
        (JString (str ''data:image/jpg;base64,AAAA'')) sample_url,
      [target_url (str ''https%3A%2F%2Fwww.instagram.com%2Freel%2FCabc123%2F'')])"
proof -
  let ?enc = "str ''https%3A%2F%2Fwww.instagram.com%2Freel%2FCabc123%2F''"
  let ?r = "\<lparr>status_code = 200, reason = str ''OK'', final_url = target_url ?enc,
             body = sample_page\<rparr>"
  have u: "upstream sample_env (target_url ?enc) = Returns ?r"
    by (simp add: sample_env_def)
  have ok: "raise_for_status ?r = None" by (simp add: raise_for_status_def)
  have "str ''https://cdn.example/video123.mp4?sig=abc'' \<noteq> []" by (simp add: str_def)
  then have "extraction sample_table sample_url sample_page =
      Inr (success (str ''https://cdn.example/video123.mp4?sig=abc'') []
             (JString (str ''data:image/jpg;base64,AAAA'')) sample_url)"
    using sample_video_url sample_thumb_url sample_thumb_base64 by (simp add: extraction_def)
  then show ?thesis
    using download_fetched [of sample_url ?enc sample_env ?r, OF _ sample_url_quote u ok]
      sample_url_host
    by (simp add: sample_env_def)
qed

lemma sample_no_video_thumb:
  "thumb_url_of sample_table no_video_page = Inr (str ''https://cdn.example/thumb.jpg'')"
proof -
  have "re_search thumb_pattern no_video_page = None"
    by (simp add: thumb_pattern_def no_video_page_def engine_defs)
  moreover have "re_search alt_thumb_pattern no_video_page =
      Some (Some (str ''https://cdn.example/thumb.jpg''), str ''</html>'')"
    by (simp add: alt_thumb_pattern_def no_video_page_def engine_defs)
  moreover have "38 \<notin> set (str ''https://cdn.example/thumb.jpg'')" by (simp add: str_def)
  ultimately show ?thesis
    by (simp add: thumb_url_of_def unescape_match_None unescape_match_Some unescape_plain)
qed

lemma download_ok_response:
  "download_instagram_content (fixed_env (Returns (ok_response page))) sample_url =
     ((case extraction sample_table sample_url page of
         Inl e \<Rightarrow> HTTPException 500 (str ''An unexpected error occurred: '' @ str ''error'')
       | Inr res \<Rightarrow> res),
      [target_url (str ''https%3A%2F%2Fwww.instagram.com%2Freel%2FCabc123%2F'')])"
proof -
  let ?enc = "str ''https%3A%2F%2Fwww.instagram.com%2Freel%2FCabc123%2F''"
  let ?E = "fixed_env (Returns (ok_response page))"
  have u: "upstream ?E (target_url ?enc) = Returns (ok_response page)"
    by (simp add: fixed_env_def)
  have ok: "raise_for_status (ok_response page) = None"
    by (simp add: raise_for_status_def ok_response_def)
  show ?thesis
    using download_fetched [of sample_url ?enc ?E "ok_response page", OF _ sample_url_quote u ok]
      sample_url_host
    by (simp add: fixed_env_def ok_response_def unexpected_def split: sum.splits)
qed

text \<open>
  The claim C3 as it is written fails: the page has no anchor with an \<open>.mp4\<close> link and
  the upstream status is 200, but \<open>html.unescape\<close> raises on the thumbnail link and the
  handler answers 500.
\<close>

theorem long_thumbnail_is_an_error:
  "\<not> has mp4_anchor long_thumb_page \<and>
   status_code (ok_response long_thumb_page) = 200 \<and>
   download_instagram_content (fixed_env (Returns (ok_response long_thumb_page))) sample_url =
     (HTTPException 500 (str ''An unexpected error occurred: '' @ str ''error''),
      [target_url (str ''https%3A%2F%2Fwww.instagram.com%2Freel%2FCabc123%2F'')])"
proof -
  have "video_url_of sample_table long_thumb_page = Inr []"
    using no_video_long_thumb by (rule video_url_absent)
  then have "extraction sample_table sample_url long_thumb_page = Inl ValueError"
    using long_thumb_raises [of sample_table] by (rule extraction_thumb_raises)
  then show ?thesis
    using no_video_long_thumb download_ok_response [of long_thumb_page]
    by (simp add: ok_response_def)
qed

text \<open>
  C3, as the code has it.  When the upstream answers with a 2xx status and its body has
  no anchor with an \<open>.mp4\<close> link, the handler returns the 404 response with \<open>status\<close>
  \<open>error\<close>, the fixed message and \<open>data\<close> \<open>null\<close>, whatever thumbnail was found, provided
  the search for the thumbnail link does not raise; when \<open>html.unescape\<close> raises on that
  link, the handler answers 500 with the detail \<open>An unexpected error occurred\<close>.
\<close>

theorem no_video_response:
  assumes "py_in (str ''instagram.com'') url \<or> py_in (str ''instagr.am'') url"
    and "quote url = Inr enc"
    and "upstream E (target_url enc) = Returns r"
    and "200 \<le> status_code r" and "status_code r < 300"
    and "\<not> has mp4_anchor (body r)"
  shows "(thumb_url_of (html5 E) (body r) = Inr thumb_url \<longrightarrow>
            download_instagram_content E url =
              (JSONResponse
                 (JObject
                   [(str ''status'', JString (str ''error'')),
                    (str ''message'',
                       JString (str ''Unable to extract video from the provided URL'')),
                    (str ''data'', JNull)])
                 404,
               [target_url enc])) \<and>
         (thumb_url_of (html5 E) (body r) = Inl e \<longrightarrow>
            download_instagram_content E url =
              (HTTPException 500 (str ''An unexpected error occurred: '' @ exc_message E e),
               [target_url enc]))"
proof -
  have ok: "raise_for_status r = None" using assms(4,5) by (simp add: raise_for_status_ok)
  have v: "video_url_of (html5 E) (body r) = Inr []" using assms(6) by (rule video_url_absent)
  note d = download_fetched [OF assms(1,2,3) ok]
  have "thumb_url_of (html5 E) (body r) = Inr thumb_url \<longrightarrow>
      extraction (html5 E) url (body r) = Inr not_found"
    using extraction_returns [OF v, of thumb_url url] by simp
  moreover have "thumb_url_of (html5 E) (body r) = Inl e \<longrightarrow>
      extraction (html5 E) url (body r) = Inl e"
    using extraction_thumb_raises [OF v] by blast
  ultimately show ?thesis using d by (auto simp: not_found_def unexpected_def)
qed

theorem no_video_response_witness:
  "download_instagram_content no_video_env sample_url =
     (JSONResponse
        (JObject
          [(str ''status'', JString (str ''error'')),
           (str ''message'', JString (str ''Unable to extract video from the provided URL'')),
           (str ''data'', JNull)])
        404,
      [target_url (str ''https%3A%2F%2Fwww.instagram.com%2Freel%2FCabc123%2F'')]) \<and>
   download_instagram_content (fixed_env (Returns (ok_response long_thumb_page))) sample_url =
     (HTTPException 500 (str ''An unexpected error occurred: '' @ str ''error''),
      [target_url (str ''https%3A%2F%2Fwww.instagram.com%2Freel%2FCabc123%2F'')])"
proof -
  let ?enc = "str ''https%3A%2F%2Fwww.instagram.com%2Freel%2FCabc123%2F''"
  let ?r = "\<lparr>status_code = 200, reason = str ''OK'', final_url = target_url ?enc,
             body = no_video_page\<rparr>"
  let ?E = "fixed_env (Returns (ok_response long_thumb_page))"
  have h: "py_in (str ''instagram.com'') sample_url \<or> py_in (str ''instagr.am'') sample_url"
    using sample_url_host by simp
  have u: "upstream no_video_env (target_url ?enc) = Returns ?r"
    by (simp add: no_video_env_def)
  have u2: "upstream ?E (target_url ?enc) = Returns (ok_response long_thumb_page)"
    by (simp add: fixed_env_def)
  have 1: "download_instagram_content no_video_env sample_url =
     (JSONResponse
        (JObject
          [(str ''status'', JString (str ''error'')),
           (str ''message'', JString (str ''Unable to extract video from the provided URL'')),
           (str ''data'', JNull)])
        404,
      [target_url ?enc])"
    using no_video_response [of sample_url ?enc no_video_env ?r
            "str ''https://cdn.example/thumb.jpg''", OF h sample_url_quote u]
      no_video_plain sample_no_video_thumb
    by (simp add: no_video_env_def)
  have 2: "download_instagram_content ?E sample_url =
     (HTTPException 500 (str ''An unexpected error occurred: '' @ str ''error''),
      [target_url ?enc])"
    using no_video_response [of sample_url ?enc ?E "ok_response long_thumb_page" _ ValueError,
            OF h sample_url_quote u2]
      no_video_long_thumb long_thumb_raises [of sample_table]
    by (simp add: fixed_env_def ok_response_def)
  show ?thesis using 1 2 by simp
qed




text \<open>
  C9.  In every response with status 200, of \<open>GET\<close> or of \<open>POST\<close>, \<open>video_url\<close> is a
  nonempty text and \<open>thumbnail_base64\<close> is \<open>null\<close> or the prefix
  \<open>data:image/jpg;base64,\<close> followed by a payload without a double quote.
\<close>

lemma extraction_200:
  assumes "extraction t url page = Inr (JSONResponse j 200)"
  shows "\<exists>video_url thumb_url b.
     j = JObject
           [(str ''status'', JString (str ''success'')),
            (str ''data'',
               JObject
                 [(str ''video_url'', JString video_url),
                  (str ''thumbnail_url'', JString thumb_url),
                  (str ''thumbnail_base64'', b),
                  (str ''original_url'', JString url)]),
            (str ''message'', JString (str ''Video extracted successfully''))] \<and>
     video_url \<noteq> [] \<and> thumb_url_of t page = Inr thumb_url \<and>
     b = thumbnail_base64_field (thumb_base64_of page) \<and>
     (b = JNull \<or> (\<exists>p. b = JString (str ''data:image/jpg;base64,'' @ p) \<and> 34 \<notin> set p))"
proof -
  obtain v th where x: "video_url_of t page = Inr v" "thumb_url_of t page = Inr th"
      "JSONResponse j 200 =
         (if v \<noteq> [] then success v th (thumbnail_base64_field (thumb_base64_of page)) url
          else not_found)"
    using extraction_Inr [OF assms] by blast
  have v: "v \<noteq> []" using x(3) by (auto simp: not_found_def split: if_splits)
  then have j: "JSONResponse j 200 = success v th (thumbnail_base64_field (thumb_base64_of page)) url"
    using x(3) by simp
  have "thumbnail_base64_field (thumb_base64_of page) = JNull \<or>
        (\<exists>p. thumbnail_base64_field (thumb_base64_of page) =
               JString (str ''data:image/jpg;base64,'' @ p) \<and> 34 \<notin> set p)"
  proof (cases "has data_uri_tag page")
    case True
    then obtain p where p: "first_of data_uri_tag page p"
        "thumbnail_base64_field (thumb_base64_of page) = JString (str ''data:image/jpg;base64,'' @ p)"
      using base64_field_present by blast
    obtain w where "data_uri_tag w p" using first_of_value [OF p(1)] by blast
    then have "34 \<notin> set p" by (auto simp: data_uri_tag_def)
    then show ?thesis using p(2) by blast
  next
    case False
    then show ?thesis using base64_field_absent by blast
  qed
  then show ?thesis using j v x(2) by (auto simp: success_def)
qed

lemma download_200:
  assumes "fst (download_instagram_content E url) = JSONResponse j 200"
  shows "\<exists>page. extraction (html5 E) url page = Inr (JSONResponse j 200)"
  using assms
  by (auto simp: download_instagram_content_def unexpected_def
      split: if_splits sum.splits outcome.splits exc_class.splits option.splits)

lemma post_200:
  assumes "fst (download_instagram_content_post E request_data) = JSONResponse j 200"
  shows "\<exists>url. fst (download_instagram_content E url) = JSONResponse j 200"
  using assms
  by (auto simp: download_instagram_content_post_def Let_def split: if_splits pyval.splits)

theorem success_invariant:
  assumes "fst (download_instagram_content E url) = JSONResponse j 200 \<or>
           fst (download_instagram_content_post E request_data) = JSONResponse j 200"
  shows "\<exists>video_url thumb_url original_url b.
     j = JObject
           [(str ''status'', JString (str ''success'')),
            (str ''data'',
               JObject
                 [(str ''video_url'', JString video_url),
                  (str ''thumbnail_url'', JString thumb_url),
                  (str ''thumbnail_base64'', b),
                  (str ''original_url'', JString original_url)]),
            (str ''message'', JString (str ''Video extracted successfully''))] \<and>
     video_url \<noteq> [] \<and>
     (b = JNull \<or> (\<exists>p. b = JString (str ''data:image/jpg;base64,'' @ p) \<and> 34 \<notin> set p))"
proof -
  obtain u where "fst (download_instagram_content E u) = JSONResponse j 200"
    using assms post_200 by blast
  then obtain page where "extraction (html5 E) u page = Inr (JSONResponse j 200)"
    using download_200 by blast
  then show ?thesis using extraction_200 [of "html5 E" u "page" j] by blast
qed

theorem success_invariant_witness:
  "\<exists>video_url thumb_url original_url b.
     fst (download_instagram_content sample_env sample_url) =
       JSONResponse
         (JObject
           [(str ''status'', JString (str ''success'')),
            (str ''data'',
               JObject
                 [(str ''video_url'', JString video_url),
                  (str ''thumbnail_url'', JString thumb_url),
                  (str ''thumbnail_base64'', b),
                  (str ''original_url'', JString original_url)]),
            (str ''message'', JString (str ''Video extracted successfully''))])
         200 \<and>
     video_url \<noteq> [] \<and>
     (b = JNull \<or> (\<exists>p. b = JString (str ''data:image/jpg;base64,'' @ p) \<and> 34 \<notin> set p))"
proof -
  obtain j where j: "fst (download_instagram_content sample_env sample_url) = JSONResponse j 200"
    using sample_download by (simp add: success_def)
  show ?thesis
    using success_invariant [of sample_env sample_url j Map.empty] j by auto
qed

subsection \<open>The examples of the claims, evaluated\<close>

lemma video_here_not_lt: "x \<noteq> 60 \<Longrightarrow> match_here video_pattern (x # xs) = None"
  by (simp add: video_pattern_def engine_defs)

lemma base64_here_not_lt: "x \<noteq> 60 \<Longrightarrow> match_here thumb_base64_pattern (x # xs) = None"
  by (simp add: thumb_base64_pattern_def engine_defs)

lemma eval_video_around:
  assumes "60 \<notin> set pre"
  shows "re_search video_pattern
           (pre @ str ''<a href=\"https://cdn.example/video123.mp4?sig=abc\"></a>'' @ post) =
         Some (Some (str ''https://cdn.example/video123.mp4?sig=abc''), str ''</a>'' @ post)"
proof -
  have "re_search video_pattern
          (str ''<a href=\"https://cdn.example/video123.mp4?sig=abc\"></a>'' @ post) =
        Some (Some (str ''https://cdn.example/video123.mp4?sig=abc''), str ''</a>'' @ post)"
    using eval_video_here [of post] by (simp add: str_def)
  then show ?thesis using re_search_skip [of video_pattern pre] video_here_not_lt assms by simp
qed

lemma eval_base64_here:
  "match_here thumb_base64_pattern (str ''<img src=\"data:image/jpg;base64,AAAA\">'' @ post) =
     Some (Some (str ''AAAA''), 62 # post)"
  by (simp add: thumb_base64_pattern_def engine_defs)

lemma eval_base64_around:
  assumes "60 \<notin> set pre"
  shows "re_search thumb_base64_pattern
           (pre @ str ''<img src=\"data:image/jpg;base64,AAAA\">'' @ post) =
         Some (Some (str ''AAAA''), 62 # post)"
proof -
  have "re_search thumb_base64_pattern (str ''<img src=\"data:image/jpg;base64,AAAA\">'' @ post) =
        Some (Some (str ''AAAA''), 62 # post)"
    using eval_base64_here [of post] by (simp add: str_def)
  then show ?thesis
    using re_search_skip [of thumb_base64_pattern pre] base64_here_not_lt assms by simp
qed

lemma eval_video_amp:
  "re_search video_pattern (str ''<a href=\"https://cdn.example/v.mp4?a=1&amp;b=2\">'') =
     Some (Some (str ''https://cdn.example/v.mp4?a=1&amp;b=2''), [])"
  by (simp add: video_pattern_def engine_defs)

lemma eval_unescape_amp:
  assumes "t (str ''amp;'') = Some (str ''&'')"
  shows "unescape t (str ''https://cdn.example/v.mp4?a=1&amp;b=2'') =
           Inr (str ''https://cdn.example/v.mp4?a=1&b=2'')"
proof -
  have "t [97, 109, 112, 59] = Some [38]" using assms by (simp add: str_def)
  then show ?thesis
    by (simp add: unescape_def charref_def replace_charref_def semi_def digits_def hexdigits_def
          engine_defs)
qed

lemma sample_extraction:
  "extraction sample_table sample_url sample_page =
     Inr (success (str ''https://cdn.example/video123.mp4?sig=abc'') []
            (JString (str ''data:image/jpg;base64,AAAA'')) sample_url)"
proof -
  have "str ''https://cdn.example/video123.mp4?sig=abc'' \<noteq> []" by (simp add: str_def)
  then show ?thesis
    using sample_video_url sample_thumb_url sample_thumb_base64 by (simp add: extraction_def)
qed

lemma sample_table_amp: "sample_table (str ''amp;'') = Some (str ''&'')"
  by (simp add: sample_table_def str_def)

subsection \<open>The video link\<close>

text \<open>
  C2.  \<open>video_url\<close> is the unescaped link of the first anchor with an \<open>.mp4\<close> link: when
  the body holds such an anchor, the link is the value of one that starts at the leftmost
  position where one starts, passed through \<open>html.unescape\<close>; when it holds none,
  \<open>video_url\<close> is empty and no response carries it: the result is the 404 without data,
  or an exception of the thumbnail search.  A body whose first
  such anchor is \<open><a href="https://cdn.example/video123.mp4?sig=abc"></a>\<close> gives that
  link, and \<open>&amp;\<close> in a link is decoded to \<open>&\<close>.
\<close>

theorem video_url_first_anchor:
  "(has mp4_anchor page \<longrightarrow>
      (\<exists>v. first_of mp4_anchor page v \<and> video_url_of t page = unescape t v)) \<and>
   (\<not> has mp4_anchor page \<longrightarrow>
      video_url_of t page = Inr [] \<and>
      (extraction t url page = Inr not_found \<or> (\<exists>e. extraction t url page = Inl e))) \<and>
   (60 \<notin> set pre \<longrightarrow>
      video_url_of t
        (pre @ str ''<a href=\"https://cdn.example/video123.mp4?sig=abc\"></a>'' @ post) =
      Inr (str ''https://cdn.example/video123.mp4?sig=abc'')) \<and>
   (t (str ''amp;'') = Some (str ''&'') \<longrightarrow>
      video_url_of t (str ''<a href=\"https://cdn.example/v.mp4?a=1&amp;b=2\">'') =
      Inr (str ''https://cdn.example/v.mp4?a=1&b=2''))"
proof (intro conjI impI)
  assume "has mp4_anchor page"
  then show "\<exists>v. first_of mp4_anchor page v \<and> video_url_of t page = unescape t v"
    using video_url_present [of "page" t] by blast
next
  assume a: "\<not> has mp4_anchor page"
  then show "video_url_of t page = Inr []" by (rule video_url_absent)
  then show "extraction t url page = Inr not_found \<or> (\<exists>e. extraction t url page = Inl e)"
    by (cases "thumb_url_of t page") (simp_all add: extraction_def)
next
  assume "60 \<notin> set pre"
  then have "re_search video_pattern
           (pre @ str ''<a href=\"https://cdn.example/video123.mp4?sig=abc\"></a>'' @ post) =
         Some (Some (str ''https://cdn.example/video123.mp4?sig=abc''), str ''</a>'' @ post)"
    by (rule eval_video_around)
  moreover have "38 \<notin> set (str ''https://cdn.example/video123.mp4?sig=abc'')"
    by (simp add: str_def)
  ultimately show "video_url_of t
        (pre @ str ''<a href=\"https://cdn.example/video123.mp4?sig=abc\"></a>'' @ post) =
      Inr (str ''https://cdn.example/video123.mp4?sig=abc'')"
    by (simp add: video_url_of_def unescape_match_Some unescape_plain)
next
  assume "t (str ''amp;'') = Some (str ''&'')"
  then show "video_url_of t (str ''<a href=\"https://cdn.example/v.mp4?a=1&amp;b=2\">'') =
      Inr (str ''https://cdn.example/v.mp4?a=1&b=2'')"
    using eval_video_amp eval_unescape_amp [of t]
    by (simp add: video_url_of_def unescape_match_Some)
qed

theorem video_url_first_anchor_witness:
  "(\<exists>v. first_of mp4_anchor sample_page v \<and>
        video_url_of sample_table sample_page = unescape sample_table v) \<and>
   video_url_of sample_table no_video_page = Inr [] \<and>
   (extraction sample_table sample_url no_video_page = Inr not_found \<or>
    (\<exists>e. extraction sample_table sample_url no_video_page = Inl e)) \<and>
   video_url_of sample_table
     (str ''watch: '' @ str ''<a href=\"https://cdn.example/video123.mp4?sig=abc\"></a>''
      @ str ''<p>'') =
     Inr (str ''https://cdn.example/video123.mp4?sig=abc'') \<and>
   video_url_of sample_table (str ''<a href=\"https://cdn.example/v.mp4?a=1&amp;b=2\">'') =
     Inr (str ''https://cdn.example/v.mp4?a=1&b=2'')"
proof -
  have p: "60 \<notin> set (str ''watch: '')" by (simp add: str_def)
  show ?thesis
    using video_url_first_anchor [where page = sample_page and t = sample_table]
      video_url_first_anchor [where page = no_video_page and t = sample_table
        and url = sample_url]
      video_url_first_anchor [where pre = "str ''watch: ''" and post = "str ''<p>''"
        and t = sample_table]
      has_video_sample no_video_plain p sample_table_amp
    by blast
qed

subsection \<open>The thumbnail link\<close>

lemma search_has:
  "re_search thumb_pattern page = Some m \<Longrightarrow> has jpg_anchor page"
  "re_search alt_thumb_pattern page = Some m \<Longrightarrow> has jpg_image page"
  "re_search thumb_base64_pattern page = Some m \<Longrightarrow> has data_uri_tag page"
  using search_thumb [of "page"] search_alt_thumb [of "page"] search_thumb_base64 [of "page"]
  by auto

lemma search_has_not:
  "re_search thumb_pattern page = None \<Longrightarrow> \<not> has jpg_anchor page"
  "re_search alt_thumb_pattern page = None \<Longrightarrow> \<not> has jpg_image page"
  "re_search thumb_base64_pattern page = None \<Longrightarrow> \<not> has data_uri_tag page"
  using search_thumb [of "page"] search_alt_thumb [of "page"] search_thumb_base64 [of "page"]
  by auto

text \<open>
  C4.  \<open>thumbnail_url\<close> prefers the anchor: when the body holds an anchor with a \<open>.jpg\<close>
  link, the thumbnail is the unescaped link of the first one, whether or not an image
  with a \<open>.jpg\<close> source exists too; when it holds no such anchor the thumbnail is the
  unescaped source of the first such image; when it holds neither, the thumbnail is the
  empty text.  In a 200 response the field is always a text, never \<open>null\<close>.
\<close>

theorem thumbnail_url_precedence:
  "(proper_table t \<and> has jpg_anchor page \<longrightarrow>
      (\<exists>v. first_of jpg_anchor page v \<and> thumb_url_of t page = unescape t v)) \<and>
   (\<not> has jpg_anchor page \<and> has jpg_image page \<longrightarrow>
      (\<exists>v. first_of jpg_image page v \<and> thumb_url_of t page = unescape t v)) \<and>
   (\<not> has jpg_anchor page \<and> \<not> has jpg_image page \<longrightarrow> thumb_url_of t page = Inr []) \<and>
   (extraction t url page = Inr (JSONResponse j 200) \<longrightarrow>
      (\<exists>video_url thumb_url b.
         thumb_url_of t page = Inr thumb_url \<and>
         j = JObject
               [(str ''status'', JString (str ''success'')),
                (str ''data'',
                   JObject
                     [(str ''video_url'', JString video_url),
                      (str ''thumbnail_url'', JString thumb_url),
                      (str ''thumbnail_base64'', b),
                      (str ''original_url'', JString url)]),
                (str ''message'', JString (str ''Video extracted successfully''))]))"
proof (intro conjI impI)
  assume "proper_table t \<and> has jpg_anchor page"
  then show "\<exists>v. first_of jpg_anchor page v \<and> thumb_url_of t page = unescape t v"
    using thumb_url_anchor [of "page" t] by blast
next
  assume "\<not> has jpg_anchor page \<and> has jpg_image page"
  then show "\<exists>v. first_of jpg_image page v \<and> thumb_url_of t page = unescape t v"
    using thumb_url_image [of "page" t] by blast
next
  assume "\<not> has jpg_anchor page \<and> \<not> has jpg_image page"
  then show "thumb_url_of t page = Inr []" using thumb_url_neither [of "page" t] by blast
next
  assume "extraction t url page = Inr (JSONResponse j 200)"
  then show "\<exists>video_url thumb_url b.
         thumb_url_of t page = Inr thumb_url \<and>
         j = JObject
               [(str ''status'', JString (str ''success'')),
                (str ''data'',
                   JObject
                     [(str ''video_url'', JString video_url),
                      (str ''thumbnail_url'', JString thumb_url),
                      (str ''thumbnail_base64'', b),
                      (str ''original_url'', JString url)]),
                (str ''message'', JString (str ''Video extracted successfully''))]"
    using extraction_200 [of t url "page" j] by blast
qed

lemma both_page_tags: "has jpg_anchor both_page" "has jpg_image both_page"
proof -
  have "re_search thumb_pattern both_page \<noteq> None"
    by (simp add: thumb_pattern_def both_page_def engine_defs)
  then show "has jpg_anchor both_page" using search_has(1) by blast
  have "re_search alt_thumb_pattern both_page \<noteq> None"
    by (simp add: alt_thumb_pattern_def both_page_def engine_defs)
  then show "has jpg_image both_page" using search_has(2) by blast
qed

lemma no_video_page_tags: "\<not> has jpg_anchor no_video_page" "has jpg_image no_video_page"
proof -
  have "re_search thumb_pattern no_video_page = None"
    by (simp add: thumb_pattern_def no_video_page_def engine_defs)
  then show "\<not> has jpg_anchor no_video_page" by (rule search_has_not(1))
  have "re_search alt_thumb_pattern no_video_page \<noteq> None"
    by (simp add: alt_thumb_pattern_def no_video_page_def engine_defs)
  then show "has jpg_image no_video_page" using search_has(2) by blast
qed

lemma sample_page_tags:
  "\<not> has jpg_anchor sample_page" "\<not> has jpg_image sample_page" "has data_uri_tag sample_page"
proof -
  have "re_search thumb_pattern sample_page = None"
    by (simp add: thumb_pattern_def sample_page_def engine_defs)
  then show "\<not> has jpg_anchor sample_page" by (rule search_has_not(1))
  have "re_search alt_thumb_pattern sample_page = None"
    by (simp add: alt_thumb_pattern_def sample_page_def engine_defs)
  then show "\<not> has jpg_image sample_page" by (rule search_has_not(2))
  have "re_search thumb_base64_pattern sample_page \<noteq> None"
    by (simp add: thumb_base64_pattern_def sample_page_def engine_defs)
  then show "has data_uri_tag sample_page" using search_has(3) by blast
qed

theorem thumbnail_url_precedence_witness:
  "has jpg_image both_page \<and>
   (\<exists>v. first_of jpg_anchor both_page v \<and>
        thumb_url_of sample_table both_page = unescape sample_table v) \<and>
   (\<exists>v. first_of jpg_image no_video_page v \<and>
        thumb_url_of sample_table no_video_page = unescape sample_table v) \<and>
   thumb_url_of sample_table sample_page = Inr [] \<and>
   (\<exists>video_url thumb_url b.
      thumb_url_of sample_table sample_page = Inr thumb_url \<and>
      extraction sample_table sample_url sample_page =
        Inr (JSONResponse
              (JObject
                [(str ''status'', JString (str ''success'')),
                 (str ''data'',
                    JObject
                      [(str ''video_url'', JString video_url),
                       (str ''thumbnail_url'', JString thumb_url),
                       (str ''thumbnail_base64'', b),
                       (str ''original_url'', JString sample_url)]),
                 (str ''message'', JString (str ''Video extracted successfully''))])
              200))"
proof -
  obtain j where j: "extraction sample_table sample_url sample_page = Inr (JSONResponse j 200)"
    using sample_extraction by (simp add: success_def)
  show ?thesis
    using thumbnail_url_precedence [where page = both_page and t = sample_table]
      thumbnail_url_precedence [where page = no_video_page and t = sample_table]
      thumbnail_url_precedence [where page = sample_page and t = sample_table
        and url = sample_url and j = j]
      both_page_tags no_video_page_tags sample_page_tags proper_sample_table j
    by auto
qed

subsection \<open>The inline thumbnail\<close>

text \<open>
  C5.  \<open>thumbnail_base64\<close> is \<open>data:image/jpg;base64,\<close> followed by the payload of the
  first image tag whose source is such a data URI, the payload being the characters of
  the body as they stand; it is \<open>null\<close> when the body holds no such tag.  A body whose
  first such tag is \<open><img src="data:image/jpg;base64,AAAA">\<close> gives
  \<open>data:image/jpg;base64,AAAA\<close>.  This value is the field of the 200 response.
\<close>

theorem thumbnail_base64_data_uri:
  "(has data_uri_tag page \<longrightarrow>
      (\<exists>p. first_of data_uri_tag page p \<and>
           thumbnail_base64_field (thumb_base64_of page) =
             JString (str ''data:image/jpg;base64,'' @ p))) \<and>
   (\<not> has data_uri_tag page \<longrightarrow> thumbnail_base64_field (thumb_base64_of page) = JNull) \<and>
   (60 \<notin> set pre \<longrightarrow>
      thumbnail_base64_field
        (thumb_base64_of (pre @ str ''<img src=\"data:image/jpg;base64,AAAA\">'' @ post)) =
      JString (str ''data:image/jpg;base64,AAAA'')) \<and>
   (extraction t url page = Inr (JSONResponse j 200) \<longrightarrow>
      (\<exists>video_url thumb_url.
         j = JObject
               [(str ''status'', JString (str ''success'')),
                (str ''data'',
                   JObject
                     [(str ''video_url'', JString video_url),
                      (str ''thumbnail_url'', JString thumb_url),
                      (str ''thumbnail_base64'', thumbnail_base64_field (thumb_base64_of page)),
                      (str ''original_url'', JString url)]),
                (str ''message'', JString (str ''Video extracted successfully''))]))"
proof (intro conjI impI)
  assume "has data_uri_tag page"
  then show "\<exists>p. first_of data_uri_tag page p \<and>
           thumbnail_base64_field (thumb_base64_of page) =
             JString (str ''data:image/jpg;base64,'' @ p)"
    by (rule base64_field_present)
next
  assume "\<not> has data_uri_tag page"
  then show "thumbnail_base64_field (thumb_base64_of page) = JNull"
    by (rule base64_field_absent)
next
  assume "60 \<notin> set pre"
  then have "re_search thumb_base64_pattern
           (pre @ str ''<img src=\"data:image/jpg;base64,AAAA\">'' @ post) =
         Some (Some (str ''AAAA''), 62 # post)"
    by (rule eval_base64_around)
  then show "thumbnail_base64_field
        (thumb_base64_of (pre @ str ''<img src=\"data:image/jpg;base64,AAAA\">'' @ post)) =
      JString (str ''data:image/jpg;base64,AAAA'')"
    by (simp add: thumbnail_base64_field_def thumb_base64_of_def str_def)
next
  assume "extraction t url page = Inr (JSONResponse j 200)"
  then show "\<exists>video_url thumb_url.
         j = JObject
               [(str ''status'', JString (str ''success'')),
                (str ''data'',
                   JObject
                     [(str ''video_url'', JString video_url),
                      (str ''thumbnail_url'', JString thumb_url),
                      (str ''thumbnail_base64'', thumbnail_base64_field (thumb_base64_of page)),
                      (str ''original_url'', JString url)]),
                (str ''message'', JString (str ''Video extracted successfully''))]"
    using extraction_200 [of t url "page" j] by blast
qed

theorem thumbnail_base64_data_uri_witness:
  "(\<exists>p. first_of data_uri_tag sample_page p \<and>
        thumbnail_base64_field (thumb_base64_of sample_page) =
          JString (str ''data:image/jpg;base64,'' @ p)) \<and>
   thumbnail_base64_field (thumb_base64_of no_video_page) = JNull \<and>
   thumbnail_base64_field
     (thumb_base64_of (str ''thumb: '' @ str ''<img src=\"data:image/jpg;base64,AAAA\">''
        @ str ''<p>'')) =
     JString (str ''data:image/jpg;base64,AAAA'') \<and>
   (\<exists>video_url thumb_url.
      extraction sample_table sample_url sample_page =
        Inr (JSONResponse
              (JObject
                [(str ''status'', JString (str ''success'')),
                 (str ''data'',
                    JObject
                      [(str ''video_url'', JString video_url),
                       (str ''thumbnail_url'', JString thumb_url),
                       (str ''thumbnail_base64'',
                          thumbnail_base64_field (thumb_base64_of sample_page)),
                       (str ''original_url'', JString sample_url)]),
                 (str ''message'', JString (str ''Video extracted successfully''))])
              200))"
proof -
  obtain j where j: "extraction sample_table sample_url sample_page = Inr (JSONResponse j 200)"
    using sample_extraction by (simp add: success_def)
  have n: "\<not> has data_uri_tag no_video_page"
  proof -
    have "re_search thumb_base64_pattern no_video_page = None"
      by (simp add: thumb_base64_pattern_def no_video_page_def engine_defs)
    then show ?thesis by (rule search_has_not(3))
  qed
  have p: "60 \<notin> set (str ''thumb: '')" by (simp add: str_def)
  show ?thesis
    using thumbnail_base64_data_uri [where page = sample_page]
      thumbnail_base64_data_uri [where page = no_video_page]
      thumbnail_base64_data_uri [where pre = "str ''thumb: ''" and post = "str ''<p>''"]
      thumbnail_base64_data_uri [where page = sample_page and t = sample_table
        and url = sample_url and j = j]
      sample_page_tags(3) n p j
    by auto
qed

subsection \<open>Failures of the request\<close>

lemma download_validated:
  assumes "py_in (str ''instagram.com'') url \<or> py_in (str ''instagr.am'') url"
    and "quote url = Inr enc"
  shows "download_instagram_content E url =
     ((case upstream E (target_url enc) of
         Raises Timeout m \<Rightarrow>
           HTTPException 408
             (str ''Request timeout - the external service took too long to respond'')
       | Raises RequestException m \<Rightarrow> HTTPException 500 (str ''Failed to fetch data: '' @ m)
       | Raises OtherException m \<Rightarrow>
           HTTPException 500 (str ''An unexpected error occurred: '' @ m)
       | Returns r \<Rightarrow>
           (case raise_for_status r of
              Some m \<Rightarrow> HTTPException 500 (str ''Failed to fetch data: '' @ m)
            | None \<Rightarrow>
                (case extraction (html5 E) url (body r) of
                   Inl e \<Rightarrow> unexpected E e
                 | Inr res \<Rightarrow> res))),
      [target_url enc])"
  using assms host_not_blank [OF assms(1)] by (simp add: download_instagram_content_def)

lemma extraction_response:
  assumes "extraction t url page = Inr res"
  shows "\<exists>j st. res = JSONResponse j st \<and> (st = 200 \<or> st = 404)"
  using extraction_Inr [OF assms] by (auto simp: success_def not_found_def)

text \<open>
  C6, as the code has it.  For a validated URL: a \<open>Timeout\<close> of the request gives 408;
  another exception of \<open>requests\<close> gives 500; a response with a status from 400 to 599
  gives 500; a response with any other status is processed and gives the 200 or the 404
  response, or 500 when the processing raises.  One request is sent, and 408 and 500 are
  the only statuses of an error.
\<close>

theorem fetch_failures:
  assumes "py_in (str ''instagram.com'') url \<or> py_in (str ''instagr.am'') url"
    and "quote url = Inr enc"
  shows
   "(upstream E (target_url enc) = Raises Timeout m \<longrightarrow>
       download_instagram_content E url =
         (HTTPException 408
            (str ''Request timeout - the external service took too long to respond''),
          [target_url enc])) \<and>
    (upstream E (target_url enc) = Raises RequestException m \<longrightarrow>
       download_instagram_content E url =
         (HTTPException 500 (str ''Failed to fetch data: '' @ m), [target_url enc])) \<and>
    (upstream E (target_url enc) = Returns r \<and> 400 \<le> status_code r \<and> status_code r < 600 \<longrightarrow>
       (\<exists>m'. raise_for_status r = Some m' \<and>
          download_instagram_content E url =
            (HTTPException 500 (str ''Failed to fetch data: '' @ m'), [target_url enc]))) \<and>
    (upstream E (target_url enc) = Returns r \<and> \<not> (400 \<le> status_code r \<and> status_code r < 600) \<longrightarrow>
       (\<exists>j st. download_instagram_content E url = (JSONResponse j st, [target_url enc]) \<and>
          (st = 200 \<or> st = 404)) \<or>
       (\<exists>e. download_instagram_content E url =
          (HTTPException 500 (str ''An unexpected error occurred: '' @ exc_message E e),
           [target_url enc]))) \<and>
    snd (download_instagram_content E url) = [target_url enc] \<and>
    (\<forall>st d. fst (download_instagram_content E url) = HTTPException st d \<longrightarrow>
       st = 408 \<or> st = 500)"
proof -
  note d = download_validated [OF assms, of E]
  have 1: "upstream E (target_url enc) = Raises Timeout m \<longrightarrow>
       download_instagram_content E url =
         (HTTPException 408
            (str ''Request timeout - the external service took too long to respond''),
          [target_url enc])"
    using d by simp
  have 2: "upstream E (target_url enc) = Raises RequestException m \<longrightarrow>
       download_instagram_content E url =
         (HTTPException 500 (str ''Failed to fetch data: '' @ m), [target_url enc])"
    using d by simp
  have 3: "upstream E (target_url enc) = Returns r \<and> 400 \<le> status_code r \<and> status_code r < 600 \<longrightarrow>
       (\<exists>m'. raise_for_status r = Some m' \<and>
          download_instagram_content E url =
            (HTTPException 500 (str ''Failed to fetch data: '' @ m'), [target_url enc]))"
  proof
    assume a: "upstream E (target_url enc) = Returns r \<and> 400 \<le> status_code r \<and> status_code r < 600"
    then have "raise_for_status r \<noteq> None" by (simp add: raise_for_status_def)
    then obtain m' where "raise_for_status r = Some m'" by blast
    then show "\<exists>m'. raise_for_status r = Some m' \<and>
          download_instagram_content E url =
            (HTTPException 500 (str ''Failed to fetch data: '' @ m'), [target_url enc])"
      using d a by simp
  qed
  have 4: "upstream E (target_url enc) = Returns r \<and> \<not> (400 \<le> status_code r \<and> status_code r < 600) \<longrightarrow>
       (\<exists>j st. download_instagram_content E url = (JSONResponse j st, [target_url enc]) \<and>
          (st = 200 \<or> st = 404)) \<or>
       (\<exists>e. download_instagram_content E url =
          (HTTPException 500 (str ''An unexpected error occurred: '' @ exc_message E e),
           [target_url enc]))"
  proof
    assume a: "upstream E (target_url enc) = Returns r \<and> \<not> (400 \<le> status_code r \<and> status_code r < 600)"
    then have ok: "raise_for_status r = None" using raise_for_status_ok by blast
    show "(\<exists>j st. download_instagram_content E url = (JSONResponse j st, [target_url enc]) \<and>
          (st = 200 \<or> st = 404)) \<or>
       (\<exists>e. download_instagram_content E url =
          (HTTPException 500 (str ''An unexpected error occurred: '' @ exc_message E e),
           [target_url enc]))"
    proof (cases "extraction (html5 E) url (body r)")
      case (Inl e)
      then have "download_instagram_content E url =
          (HTTPException 500 (str ''An unexpected error occurred: '' @ exc_message E e),
           [target_url enc])"
        using d a ok by (simp add: unexpected_def)
      then show ?thesis by blast
    next
      case (Inr res)
      then obtain j st where "res = JSONResponse j st" "st = 200 \<or> st = 404"
        using extraction_response by blast
      then have "download_instagram_content E url = (JSONResponse j st, [target_url enc]) \<and>
          (st = 200 \<or> st = 404)"
        using d a ok Inr by simp
      then show ?thesis by blast
    qed
  qed
  have 5: "snd (download_instagram_content E url) = [target_url enc]" using d by simp
  have 6: "\<forall>st d. fst (download_instagram_content E url) = HTTPException st d \<longrightarrow>
       st = 408 \<or> st = 500"
  proof (intro allI impI)
    fix st dd assume h: "fst (download_instagram_content E url) = HTTPException st dd"
    show "st = 408 \<or> st = 500"
    proof (cases "upstream E (target_url enc)")
      case (Raises c m0)
      then show ?thesis using d h by (cases c) auto
    next
      case (Returns r0)
      show ?thesis
      proof (cases "extraction (html5 E) url (body r0)")
        case (Inl e)
        then show ?thesis using d h Returns by (auto simp: unexpected_def split: option.splits)
      next
        case (Inr res)
        then obtain j s0 where "res = JSONResponse j s0" using extraction_response by blast
        then show ?thesis using d h Returns Inr by (auto split: option.splits)
      qed
    qed
  qed
  show ?thesis using 1 2 3 4 5 6 by blast
qed

lemma sample_not_modified:
  "download_instagram_content not_modified_env sample_url =
     (not_found, [target_url (str ''https%3A%2F%2Fwww.instagram.com%2Freel%2FCabc123%2F'')])"
proof -
  let ?enc = "str ''https%3A%2F%2Fwww.instagram.com%2Freel%2FCabc123%2F''"
  let ?r = "\<lparr>status_code = 304, reason = str ''Not Modified'', final_url = target_url ?enc,
             body = []\<rparr>"
  have u: "upstream not_modified_env (target_url ?enc) = Returns ?r"
    by (simp add: not_modified_env_def)
  have ok: "raise_for_status ?r = None" by (simp add: raise_for_status_def)
  have "re_search video_pattern [] = None" by (simp add: video_pattern_def engine_defs)
  then have v: "video_url_of (html5 not_modified_env) [] = Inr []"
    by (simp add: video_url_of_def unescape_match_None)
  have "re_search thumb_pattern [] = None" by (simp add: thumb_pattern_def engine_defs)
  moreover have "re_search alt_thumb_pattern [] = None"
    by (simp add: alt_thumb_pattern_def engine_defs)
  ultimately have "thumb_url_of (html5 not_modified_env) [] = Inr []"
    by (simp add: thumb_url_of_def unescape_match_None)
  then have "extraction (html5 not_modified_env) sample_url [] = Inr not_found"
    using extraction_returns [OF v, of "[]" sample_url] by simp
  then show ?thesis
    using download_fetched [of sample_url ?enc not_modified_env ?r, OF _ sample_url_quote u ok]
      sample_url_host
    by simp
qed

text \<open>
  The claim as it is written fails: the status 304 is not a 2xx status, and the handler
  answers with the 404 response, not with an error 500.
\<close>

theorem not_modified_is_not_an_error:
  "upstream not_modified_env
     (target_url (str ''https%3A%2F%2Fwww.instagram.com%2Freel%2FCabc123%2F'')) =
     Returns \<lparr>status_code = 304, reason = str ''Not Modified'',
              final_url = target_url (str ''https%3A%2F%2Fwww.instagram.com%2Freel%2FCabc123%2F''),
              body = []\<rparr> \<and>
   quote sample_url = Inr (str ''https%3A%2F%2Fwww.instagram.com%2Freel%2FCabc123%2F'') \<and>
   fst (download_instagram_content not_modified_env sample_url) =
     JSONResponse
       (JObject
         [(str ''status'', JString (str ''error'')),
          (str ''message'', JString (str ''Unable to extract video from the provided URL'')),
          (str ''data'', JNull)])
       404"
  using sample_not_modified sample_url_quote
  by (simp add: not_modified_env_def not_found_def)

theorem fetch_failures_witness:
  "download_instagram_content (fixed_env (Raises Timeout (str ''read timed out''))) sample_url =
     (HTTPException 408
        (str ''Request timeout - the external service took too long to respond''),
      [target_url (str ''https%3A%2F%2Fwww.instagram.com%2Freel%2FCabc123%2F'')]) \<and>
   download_instagram_content (fixed_env (Raises RequestException (str ''connection reset'')))
       sample_url =
     (HTTPException 500 (str ''Failed to fetch data: '' @ str ''connection reset''),
      [target_url (str ''https%3A%2F%2Fwww.instagram.com%2Freel%2FCabc123%2F'')]) \<and>
   download_instagram_content (fixed_env (Returns unavailable)) sample_url =
     (HTTPException 500
        (str ''Failed to fetch data: ''
         @ str ''503 Server Error: Service Unavailable for url: https://snapdownloader.com/''),
      [target_url (str ''https%3A%2F%2Fwww.instagram.com%2Freel%2FCabc123%2F'')]) \<and>
   ((\<exists>j st. download_instagram_content not_modified_env sample_url =
        (JSONResponse j st,
         [target_url (str ''https%3A%2F%2Fwww.instagram.com%2Freel%2FCabc123%2F'')]) \<and>
        (st = 200 \<or> st = 404)) \<or>
    (\<exists>e. download_instagram_content not_modified_env sample_url =
        (HTTPException 500
           (str ''An unexpected error occurred: '' @ exc_message not_modified_env e),
         [target_url (str ''https%3A%2F%2Fwww.instagram.com%2Freel%2FCabc123%2F'')])))"
proof -
  let ?enc = "str ''https%3A%2F%2Fwww.instagram.com%2Freel%2FCabc123%2F''"
  have h: "py_in (str ''instagram.com'') sample_url \<or> py_in (str ''instagr.am'') sample_url"
    using sample_url_host by simp
  have m: "raise_for_status unavailable =
      Some (str ''503 Server Error: Service Unavailable for url: https://snapdownloader.com/'')"
    by (simp add: raise_for_status_def unavailable_def str_def decimal.simps)
  show ?thesis
    using fetch_failures [OF h sample_url_quote,
            of "fixed_env (Raises Timeout (str ''read timed out''))" "str ''read timed out''"]
      fetch_failures [OF h sample_url_quote,
            of "fixed_env (Raises RequestException (str ''connection reset''))"
               "str ''connection reset''"]
      fetch_failures [OF h sample_url_quote, of "fixed_env (Returns unavailable)" _ unavailable]
      fetch_failures [OF h sample_url_quote, of not_modified_env _
        "\<lparr>status_code = 304, reason = str ''Not Modified'', final_url = target_url ?enc,
          body = []\<rparr>"]
      m
    by (simp add: fixed_env_def unavailable_def not_modified_env_def)
qed

subsection \<open>The two entry points\<close>

text \<open>
  The claim as it is written fails at the empty URL: both handlers answer 400, with
  different details.
\<close>

theorem post_get_differ_on_empty:
  "download_instagram_content_post sample_env [str ''url'' \<mapsto> PStr []] \<noteq>
   download_instagram_content sample_env []"
  by (simp add: download_instagram_content_post_def download_instagram_content_def get_url_def
        str_def)

text \<open>
  C7, as the code has it.  For a body \<open>{"url": url}\<close> with a nonempty text \<open>url\<close>, \<open>POST\<close>
  returns what \<open>GET\<close> returns for \<open>url\<close>, response and requests alike.  For the empty
  text both return status 400 without a request, \<open>POST\<close> with the detail
  \<open>Missing 'url' field in request body\<close> and \<open>GET\<close> with \<open>Missing Instagram URL\<close>.
\<close>

theorem post_get_agree:
  assumes "request_data (str ''url'') = Some (PStr url)"
  shows "(url \<noteq> [] \<longrightarrow>
            download_instagram_content_post E request_data = download_instagram_content E url) \<and>
         (url = [] \<longrightarrow>
            download_instagram_content_post E request_data =
              (HTTPException 400 (str ''Missing 'url' field in request body''), []) \<and>
            download_instagram_content E url =
              (HTTPException 400 (str ''Missing Instagram URL''), []))"
  using assms
  by (simp add: download_instagram_content_post_def download_instagram_content_def get_url_def)

theorem post_get_agree_witness:
  "download_instagram_content_post sample_env [str ''url'' \<mapsto> PStr sample_url] =
     download_instagram_content sample_env sample_url \<and>
   download_instagram_content_post sample_env [str ''url'' \<mapsto> PStr []] =
     (HTTPException 400 (str ''Missing 'url' field in request body''), []) \<and>
   download_instagram_content sample_env [] =
     (HTTPException 400 (str ''Missing Instagram URL''), [])"
proof -
  have "sample_url \<noteq> []" by (simp add: sample_url_def str_def)
  then show ?thesis
    using post_get_agree [of "[str ''url'' \<mapsto> PStr sample_url]" sample_url sample_env]
      post_get_agree [of "[str ''url'' \<mapsto> PStr []]" "[]" sample_env]
    by simp
qed

end
